theory Spec2Isabelle
  imports Main "HOL-Library.Word" "HOL-Library.AList"
begin

unbundle bit_operations_syntax

section \<open>Strings and numbers of the host language\<close>

text \<open>
  A TypeScript string is a sequence of UTF-16 code units. It is modelled as a list of
  natural numbers, one per code unit; \<open>js\<close> turns a HOL string literal into such a list.
\<close>

type_synonym jsstring = "nat list"

definition js :: "string \<Rightarrow> jsstring" where
  "js s = map of_char s"

text \<open>The character classes of the regular expressions: \<open>\d\<close>, \<open>\s\<close> and the line terminators.\<close>

definition isDigit :: "nat \<Rightarrow> bool" where
  "isDigit c = (48 \<le> c \<and> c \<le> 57)"

definition isLineTerminator :: "nat \<Rightarrow> bool" where
  "isLineTerminator c = (c = 10 \<or> c = 13 \<or> c = 8232 \<or> c = 8233)"

definition isSpace :: "nat \<Rightarrow> bool" where
  "isSpace c = (c = 9 \<or> c = 10 \<or> c = 11 \<or> c = 12 \<or> c = 13 \<or> c = 32 \<or> c = 160 \<or>
     c = 5760 \<or> (8192 \<le> c \<and> c \<le> 8202) \<or> c = 8232 \<or> c = 8233 \<or> c = 8239 \<or>
     c = 8287 \<or> c = 12288 \<or> c = 65279)"

definition isHexDigit :: "nat \<Rightarrow> bool" where
  "isHexDigit c = (isDigit c \<or> (97 \<le> c \<and> c \<le> 102) \<or> (65 \<le> c \<and> c \<le> 70))"

text \<open>
  \<open>String.prototype.toUpperCase\<close> on the ASCII letters; other code units are left as
  they are. Every string the scanner upper-cases after parsing consists of ASCII
  characters, where this is the whole of the library function.
\<close>

definition upperChar :: "nat \<Rightarrow> nat" where
  "upperChar c = (if 97 \<le> c \<and> c \<le> 122 then c - 32 else c)"

definition toUpperCase :: "jsstring \<Rightarrow> jsstring" where
  "toUpperCase s = map upperChar s"

text \<open>\<open>s.split(sep)\<close> for a separator of one character: never empty, \<open>"".split(".") = [""]\<close>.\<close>

fun js_split :: "nat \<Rightarrow> jsstring \<Rightarrow> jsstring list" where
  "js_split sep [] = [[]]"
| "js_split sep (c # cs) =
     (if c = sep then [] # js_split sep cs
      else (case js_split sep cs of
              [] \<Rightarrow> [[c]]
            | w # ws \<Rightarrow> (c # w) # ws))"

text \<open>\<open>parts.join(sep)\<close>.\<close>

fun js_join :: "jsstring \<Rightarrow> jsstring list \<Rightarrow> jsstring" where
  "js_join sep [] = []"
| "js_join sep [x] = x"
| "js_join sep (x # y # ys) = x @ sep @ js_join sep (y # ys)"

text \<open>The decimal digits of a non-negative integer, as \<open>Number.prototype.toString\<close> prints it.\<close>

fun decimal :: "nat \<Rightarrow> jsstring" where
  "decimal n = (if n < 10 then [48 + n] else decimal (n div 10) @ [48 + n mod 10])"

declare decimal.simps [simp del]

text \<open>
  A value of type \<open>number\<close> as \<open>parseInt\<close> can return it: not-a-number, an infinity, or a
  double that holds an integer.
\<close>

datatype number = NaN | Infinity bool | Finite int

text \<open>
  The double nearest to a natural number (ties to even); \<open>None\<close> when the number is
  beyond the range of the doubles and rounds to infinity.
\<close>

fun bitlen :: "nat \<Rightarrow> nat" where
  "bitlen n = (if n = 0 then 0 else Suc (bitlen (n div 2)))"

declare bitlen.simps [simp del]

definition roundDouble :: "nat \<Rightarrow> nat option" where
  "roundDouble n =
     (if n < 2 ^ 53 then Some n
      else let e = bitlen n - 53;
               q = n div 2 ^ e;
               r = n mod 2 ^ e;
               h = 2 ^ (e - 1);
               q' = (if h < r \<or> (r = h \<and> odd q) then q + 1 else q);
               v = q' * 2 ^ e
           in if 2 ^ 1024 \<le> v then None else Some v)"

definition digitValue :: "nat \<Rightarrow> nat" where
  "digitValue c = (if isDigit c then c - 48 else if 97 \<le> c \<and> c \<le> 102 then c - 87 else c - 55)"

text \<open>
  \<open>parseInt(string)\<close> with no radix: leading white space is skipped, a sign is read, a
  prefix \<open>0x\<close> or \<open>0X\<close> selects radix 16, the longest run of digits is the value, and no
  digit at all is \<open>NaN\<close>.
\<close>

definition parseInt :: "jsstring \<Rightarrow> number" where
  "parseInt str =
     (let s = dropWhile isSpace str;
          neg = (case s of [] \<Rightarrow> False | c # _ \<Rightarrow> c = 45);
          s1 = (case s of [] \<Rightarrow> [] | c # cs \<Rightarrow> if c = 43 \<or> c = 45 then cs else s);
          hex = (case s1 of a # b # _ \<Rightarrow> a = 48 \<and> (b = 120 \<or> b = 88) | _ \<Rightarrow> False);
          s2 = (if hex then drop 2 s1 else s1);
          R = (if hex then 16 else 10);
          z = takeWhile (if hex then isHexDigit else isDigit) s2
      in if z = [] then NaN
         else (case roundDouble (foldl (\<lambda>a c. a * R + digitValue c) 0 z) of
                 None \<Rightarrow> Infinity neg
               | Some v \<Rightarrow> Finite (if neg then - int v else int v)))"

text \<open>
  \<open>ToInt32\<close>, which the bitwise operators apply to their operands: not-a-number and the
  infinities become 0, an integer is taken modulo \<open>2^32\<close>.
\<close>

fun ToInt32 :: "number \<Rightarrow> 32 word" where
  "ToInt32 NaN = 0"
| "ToInt32 (Infinity _) = 0"
| "ToInt32 (Finite v) = word_of_int v"

section \<open>Addresses\<close>

text \<open>
  \<open>ipToNumber\<close>: \<open>ip.split(".").reduce((acc, octet) => (acc << 8) | parseInt(octet), 0)\<close>.
  The result of \<open>|\<close> is a signed 32-bit integer, kept here as a 32-bit word (\<open>sint\<close> reads
  the number the program sees).
\<close>

definition ipToNumber :: "jsstring \<Rightarrow> 32 word" where
  "ipToNumber ip =
     foldl (\<lambda>acc octet. push_bit 8 acc OR ToInt32 (parseInt octet)) 0 (js_split 46 ip)"

text \<open>One yielded address: the four bytes of \<open>current\<close>, most significant first, joined by dots.\<close>

definition dottedQuad :: "int \<Rightarrow> jsstring" where
  "dottedQuad current =
     (let w = (word_of_int current :: 32 word)
      in js_join [46]
           [decimal (unat (drop_bit 24 w AND 255)),
            decimal (unat (drop_bit 16 w AND 255)),
            decimal (unat (drop_bit 8 w AND 255)),
            decimal (unat (w AND 255))])"

text \<open>
  The loop of \<open>calculateSubnet\<close>: \<open>for (let current = network + 1; current < broadcast; current++)\<close>.
  The counter is a number, not a 32-bit integer, so it is an \<open>int\<close> here and the
  comparison is the signed one.
\<close>

function subnetLoop :: "int \<Rightarrow> int \<Rightarrow> jsstring list" where
  "subnetLoop current broadcast =
     (if current < broadcast then dottedQuad current # subnetLoop (current + 1) broadcast
      else [])"
  by pat_completeness auto
termination
  by (relation "measure (\<lambda>(current, broadcast). nat (broadcast - current))") auto

declare subnetLoop.simps [simp del]

definition calculateSubnet :: "jsstring \<Rightarrow> jsstring \<Rightarrow> jsstring list" where
  "calculateSubnet ip netmask =
     (let ipNum = ipToNumber ip;
          maskNum = ipToNumber netmask;
          network = ipNum AND maskNum;
          broadcast = network OR NOT maskNum
      in subnetLoop (sint network + 1) (sint broadcast))"

text \<open>
  The notions the claims about addresses are stated in: the dotted-quad notation of four
  octets, and the 32-bit value of four octets, most significant first.
\<close>

definition dotted :: "nat \<Rightarrow> nat \<Rightarrow> nat \<Rightarrow> nat \<Rightarrow> jsstring" where
  "dotted a b c d = js_join [46] [decimal a, decimal b, decimal c, decimal d]"

definition quad32 :: "nat \<Rightarrow> nat \<Rightarrow> nat \<Rightarrow> nat \<Rightarrow> 32 word" where
  "quad32 a b c d = word_of_nat (a * 2 ^ 24 + b * 2 ^ 16 + c * 2 ^ 8 + d)"

section \<open>Regular expressions\<close>

text \<open>
  The patterns of the scanner use literals, character classes, greedy quantifiers over a
  single character, the assertions \<open>^\<close> and \<open>$\<close>, and capture groups that are neither
  nested nor repeated. A pattern is the list of its items; \<open>Open\<close> and \<open>Close\<close> are the
  parentheses of a capture group.
\<close>

datatype item =
    Lit nat
  | Cls "nat \<Rightarrow> bool"
  | Rept "nat \<Rightarrow> bool" nat "nat option"
  | Bol
  | Eol
  | Open
  | Close

record flags =
  multiline :: bool
  ignoreCase :: bool

record regex =
  items :: "item list"
  mode :: flags

fun decr :: "nat option \<Rightarrow> nat option" where
  "decr None = None"
| "decr (Some h) = Some (h - 1)"

text \<open>
  The backtracking matcher. \<open>matchHere fl its s i os cs\<close> matches the items \<open>its\<close> against
  \<open>s\<close> from index \<open>i\<close>; \<open>os\<close> holds the start indices of the groups that are open and
  \<open>cs\<close> the captures of the groups closed so far. The result is the end index and the
  captures. A quantifier first tries one more repetition and only then the rest of the
  pattern, as the language's \<open>RepeatMatcher\<close> does.
\<close>

function matchHere ::
  "flags \<Rightarrow> item list \<Rightarrow> jsstring \<Rightarrow> nat \<Rightarrow> nat list \<Rightarrow> jsstring list
     \<Rightarrow> (nat \<times> jsstring list) option" where
  "matchHere fl [] s i os cs = Some (i, cs)"
| "matchHere fl (Lit c # r) s i os cs =
     (if i < length s \<and>
         (if ignoreCase fl then upperChar (s ! i) = upperChar c else s ! i = c)
      then matchHere fl r s (i + 1) os cs else None)"
| "matchHere fl (Cls p # r) s i os cs =
     (if i < length s \<and> p (s ! i) then matchHere fl r s (i + 1) os cs else None)"
| "matchHere fl (Rept p lo hi # r) s i os cs =
     (if hi = Some 0 then matchHere fl r s i os cs
      else let more = (if i < length s \<and> p (s ! i)
                       then matchHere fl (Rept p (lo - 1) (decr hi) # r) s (i + 1) os cs
                       else None)
           in if lo \<noteq> 0 then more
              else (case more of
                      Some z \<Rightarrow> Some z
                    | None \<Rightarrow> matchHere fl r s i os cs))"
| "matchHere fl (Bol # r) s i os cs =
     (if i = 0 \<or> (multiline fl \<and> i \<le> length s \<and> isLineTerminator (s ! (i - 1)))
      then matchHere fl r s i os cs else None)"
| "matchHere fl (Eol # r) s i os cs =
     (if i = length s \<or> (multiline fl \<and> i < length s \<and> isLineTerminator (s ! i))
      then matchHere fl r s i os cs else None)"
| "matchHere fl (Open # r) s i os cs = matchHere fl r s i (i # os) cs"
| "matchHere fl (Close # r) s i os cs =
     (case os of
        [] \<Rightarrow> None
      | b # os' \<Rightarrow> matchHere fl r s i os' (cs @ [take (i - b) (drop b s)]))"
  by pat_completeness auto
termination
  by (relation "measures [\<lambda>(fl, its, s, i, os, cs). length its,
                          \<lambda>(fl, its, s, i, os, cs). length s - i]") auto

text \<open>
  \<open>regex.exec(s)\<close> from \<open>lastIndex\<close>: the first index at or after \<open>lastIndex\<close> where the
  pattern matches; the result is the start, the end (the next \<open>lastIndex\<close> of a global
  pattern) and the captures.
\<close>

function regexExec ::
  "regex \<Rightarrow> jsstring \<Rightarrow> nat \<Rightarrow> (nat \<times> nat \<times> jsstring list) option" where
  "regexExec re s lastIndex =
     (if length s < lastIndex then None
      else (case matchHere (mode re) (items re) s lastIndex [] [] of
              Some (e, cs) \<Rightarrow> Some (lastIndex, e, cs)
            | None \<Rightarrow> regexExec re s (lastIndex + 1)))"
  by pat_completeness auto
termination
  by (relation "measure (\<lambda>(re, s, lastIndex). Suc (length s) - lastIndex)") auto

declare regexExec.simps [simp del]

definition lits :: "string \<Rightarrow> item list" where
  "lits s = map Lit (js s)"

section \<open>The neighbor cache\<close>

text \<open>
  A \<open>Map<string, string>\<close> keeps its entries in insertion order; \<open>set\<close> on a key that is
  present replaces the value where it stands, on a new key it appends the entry.
\<close>

type_synonym arpMap = "(jsstring \<times> jsstring) list"

definition Map_set :: "arpMap \<Rightarrow> jsstring \<Rightarrow> jsstring \<Rightarrow> arpMap" where
  "Map_set m k v = AList.update k v m"

definition isWinMacChar :: "nat \<Rightarrow> bool" where
  "isWinMacChar c = (isHexDigit c \<or> c = 58 \<or> c = 45)"

definition isUnixMacChar :: "nat \<Rightarrow> bool" where
  "isUnixMacChar c = (isHexDigit c \<or> c = 58)"

text \<open>The part \<open>(\d+\.\d+\.\d+\.\d+)\<close> that both patterns share.\<close>

definition ipGroup :: "item list" where
  "ipGroup = [Open, Rept isDigit 1 None, Lit 46, Rept isDigit 1 None, Lit 46,
              Rept isDigit 1 None, Lit 46, Rept isDigit 1 None, Close]"

text \<open>\<open>/^\s*(\d+\.\d+\.\d+\.\d+)\s+([0-9a-fA-F:-]{17})/gm\<close>\<close>

definition winRegex :: regex where
  "winRegex = \<lparr> items = [Bol, Rept isSpace 0 None] @ ipGroup @
                   [Rept isSpace 1 None, Open, Rept isWinMacChar 17 (Some 17), Close],
                 mode = \<lparr> multiline = True, ignoreCase = False \<rparr> \<rparr>"

text \<open>\<open>/^(\d+\.\d+\.\d+\.\d+)\s+ether\s+([0-9a-fA-F:]{17})/gm\<close>\<close>

definition unixRegex :: regex where
  "unixRegex = \<lparr> items = [Bol] @ ipGroup @ [Rept isSpace 1 None] @ lits ''ether'' @
                    [Rept isSpace 1 None, Open, Rept isUnixMacChar 17 (Some 17), Close],
                  mode = \<lparr> multiline = True, ignoreCase = False \<rparr> \<rparr>"

text \<open>\<open>match[2].replace(/-/g, ":")\<close>\<close>

definition hyphensToColons :: "jsstring \<Rightarrow> jsstring" where
  "hyphensToColons s = map (\<lambda>c. if c = 45 then 58 else c) s"

definition zeroMac :: jsstring where
  "zeroMac = js ''00:00:00:00:00:00''"

text \<open>
  The two loops of \<open>parseArpOutput\<close>: \<open>while ((match = regex.exec(output)) !== null)\<close>.
  A match of either pattern has both of its groups, so the last branch of the inner
  case is never taken. The counters \<open>winCount\<close> and \<open>unixCount\<close> are only logged.
\<close>

function winLoop :: "jsstring \<Rightarrow> nat \<Rightarrow> arpMap \<Rightarrow> arpMap" where
  "winLoop output lastIndex arpMap =
     (case regexExec winRegex output lastIndex of
        None \<Rightarrow> arpMap
      | Some (b, e, caps) \<Rightarrow>
          (case caps of
             [ip, raw] \<Rightarrow>
               (let mac = toUpperCase (hyphensToColons raw)
                in winLoop output e (if mac \<noteq> zeroMac then Map_set arpMap ip mac else arpMap))
           | _ \<Rightarrow> arpMap))"
  by pat_completeness auto
function unixLoop :: "jsstring \<Rightarrow> nat \<Rightarrow> arpMap \<Rightarrow> arpMap" where
  "unixLoop output lastIndex arpMap =
     (case regexExec unixRegex output lastIndex of
        None \<Rightarrow> arpMap
      | Some (b, e, caps) \<Rightarrow>
          (case caps of
             [ip, raw] \<Rightarrow>
               (let mac = toUpperCase raw
                in unixLoop output e (if mac \<noteq> zeroMac then Map_set arpMap ip mac else arpMap))
           | _ \<Rightarrow> arpMap))"
  by pat_completeness auto
definition parseArpOutput :: "jsstring \<Rightarrow> arpMap" where
  "parseArpOutput output = unixLoop output 0 (winLoop output 0 [])"

section \<open>Subnet membership\<close>

text \<open>
  \<open>filterSubnetDevices\<close>: the entries of the map, in insertion order, whose address lies
  in the subnet of the interface. An element \<open>{ ip, mac }\<close> of the result is a pair.
\<close>

definition filterSubnetDevices ::
  "arpMap \<Rightarrow> jsstring \<Rightarrow> jsstring \<Rightarrow> (jsstring \<times> jsstring) list" where
  "filterSubnetDevices arpCache networkIp netmask =
     (let network = ipToNumber networkIp;
          mask = ipToNumber netmask
      in map (\<lambda>(ip, mac). (ip, mac))
           (filter (\<lambda>(ip, mac). ipToNumber ip AND mask = network AND mask) arpCache))"

section \<open>Global matches and replacements\<close>

text \<open>
  The loop behind \<open>s.match(re)\<close> and \<open>s.replace(re, r)\<close> for a global pattern: repeated
  \<open>exec\<close>, each match given by its start and end; after an empty match the search moves
  on by one character.
\<close>

function rangeLoop :: "regex \<Rightarrow> jsstring \<Rightarrow> nat \<Rightarrow> (nat \<times> nat) list" where
  "rangeLoop re s lastIndex =
     (case regexExec re s lastIndex of
        None \<Rightarrow> []
      | Some (b, e, cs) \<Rightarrow> (b, e) # rangeLoop re s (if e = b then e + 1 else e))"
  by pat_completeness auto

text \<open>\<open>s.match(re)\<close>, global: the matched substrings; \<open>null\<close> is the empty list here.\<close>

definition matchAll :: "regex \<Rightarrow> jsstring \<Rightarrow> jsstring list" where
  "matchAll re s = map (\<lambda>(b, e). take (e - b) (drop b s)) (rangeLoop re s 0)"

text \<open>\<open>s.replace(re, r)\<close>, global: every match is replaced by \<open>r\<close>.\<close>

fun splice :: "jsstring \<Rightarrow> nat \<Rightarrow> (nat \<times> nat) list \<Rightarrow> jsstring \<Rightarrow> jsstring" where
  "splice s pos [] r = drop pos s"
| "splice s pos ((b, e) # ms) r = take (b - pos) (drop pos s) @ r @ splice s e ms r"

definition replaceAll :: "regex \<Rightarrow> jsstring \<Rightarrow> jsstring \<Rightarrow> jsstring" where
  "replaceAll re s r = splice s 0 (rangeLoop re s 0) r"

text \<open>\<open>s.replace(re, r)\<close> for a pattern that is not global: the first match only.\<close>

definition replaceFirst :: "regex \<Rightarrow> jsstring \<Rightarrow> jsstring \<Rightarrow> jsstring" where
  "replaceFirst re s r =
     (case regexExec re s 0 of
        None \<Rightarrow> s
      | Some (b, e, cs) \<Rightarrow> take b s @ r @ drop e s)"

text \<open>\<open>s.trim()\<close>\<close>

definition trim :: "jsstring \<Rightarrow> jsstring" where
  "trim s = rev (dropWhile isSpace (rev (dropWhile isSpace s)))"

definition plain :: flags where
  "plain = \<lparr> multiline = False, ignoreCase = False \<rparr>"

text \<open>\<open>/.{1,2}/g\<close>: the dot matches every character but a line terminator.\<close>

definition pairRegex :: regex where
  "pairRegex = \<lparr> items = [Rept (\<lambda>c. \<not> isLineTerminator c) 1 (Some 2)], mode = plain \<rparr>"

text \<open>\<open>formatMac\<close>: \<open>mac.match(/.{1,2}/g)?.join(":") || mac\<close>.\<close>

definition formatMac :: "jsstring \<Rightarrow> jsstring" where
  "formatMac mac =
     (case matchAll pairRegex mac of
        [] \<Rightarrow> mac
      | m # ms \<Rightarrow> (let joined = js_join [58] (m # ms) in if joined \<noteq> [] then joined else mac))"

section \<open>The outside world\<close>

text \<open>
  What the scanner reads from the operating system and the network is a parameter of
  the model. A call that throws, or a promise that rejects, is \<open>None\<close>.
\<close>

datatype family = IPv4 | IPv6

record NetworkInterfaceInfo =
  ifname :: jsstring
  family :: family
  address :: jsstring
  netmask :: jsstring

record OuiEntry =
  prefix :: jsstring
  organization_name :: jsstring

text \<open>The result of \<open>Deno.Command.output()\<close>: the exit code and the decoded standard output.\<close>

record CommandOutput =
  code :: int
  stdout :: jsstring

text \<open>An HTTP response: \<open>response.ok\<close> and the body that \<open>response.text()\<close> resolves to.\<close>

record Response =
  ok :: bool
  body :: "jsstring option"

record world =
  networkInterfaces :: "NetworkInterfaceInfo list option"
  ouiEntries :: "OuiEntry list option"
  arpRun :: "nat \<Rightarrow> CommandOutput option"
  readTextFile :: "jsstring \<Rightarrow> jsstring option"
  fetch :: "jsstring \<Rightarrow> Response option"
  runCommand :: "jsstring \<Rightarrow> jsstring list \<Rightarrow> CommandOutput option"
  resolveDns :: "jsstring \<Rightarrow> jsstring list option"

text \<open>
  \<open>networkInterfaces\<close> is \<open>Deno.networkInterfaces()\<close>; \<open>ouiEntries\<close> is the parsed content of
  \<open>./data/ouis.json\<close>; \<open>arpRun k\<close> is the run of \<open>arp -a\<close> for the \<open>k\<close>-th interface that is
  scanned; \<open>resolveDns\<close> is the \<open>PTR\<close> lookup of a name.
\<close>

datatype call =
    ReadTextFile jsstring
  | Fetch jsstring
  | RunCommand jsstring "jsstring list"
  | ResolveDns jsstring

section \<open>Name resolution\<close>

text \<open>
  Each method returns the name it found, or \<open>"Unknown"\<close>, together with the calls it made
  to the outside world, in order.
\<close>

definition Unknown :: jsstring where
  "Unknown = js ''Unknown''"

text \<open>\<open>/\.$/\<close>\<close>

definition trailingDot :: regex where
  "trailingDot = \<lparr> items = [Lit 46, Eol], mode = plain \<rparr>"

definition resolveDnsName :: "world \<Rightarrow> jsstring \<Rightarrow> jsstring \<times> call list" where
  "resolveDnsName w ip =
     (let query = js_join [46] (rev (js_split 46 ip)) @ js ''.in-addr.arpa''
      in (case resolveDns w query of
            None \<Rightarrow> (Unknown, [ResolveDns query])
          | Some records \<Rightarrow>
              (case records of
                 [] \<Rightarrow> (Unknown, [ResolveDns query])
               | r # _ \<Rightarrow>
                   (let name = replaceFirst trailingDot r []
                    in (if name \<noteq> [] then name else Unknown, [ResolveDns query])))))"

definition resolveMdnsName :: "world \<Rightarrow> jsstring \<Rightarrow> jsstring \<times> call list" where
  "resolveMdnsName w ip =
     (let cmd = RunCommand (js ''avahi-resolve-address'') [js ''-4'', ip]
      in (case runCommand w (js ''avahi-resolve-address'') [js ''-4'', ip] of
            None \<Rightarrow> (Unknown, [cmd])
          | Some out \<Rightarrow>
              (case js_split 9 (stdout out) of
                 a # b # _ \<Rightarrow> (if trim b \<noteq> [] then trim b else Unknown, [cmd])
               | _ \<Rightarrow> (Unknown, [cmd]))))"

text \<open>\<open>/<00>\s+UNIQUE\s+([^\s]+)/\<close>\<close>

definition nbtRegex :: regex where
  "nbtRegex = \<lparr> items = lits ''<00>'' @ [Rept isSpace 1 None] @ lits ''UNIQUE'' @
                   [Rept isSpace 1 None, Open, Rept (\<lambda>c. \<not> isSpace c) 1 None, Close],
                 mode = plain \<rparr>"

definition resolveNetbiosName :: "world \<Rightarrow> jsstring \<Rightarrow> jsstring \<times> call list" where
  "resolveNetbiosName w ip =
     (let cmd = RunCommand (js ''nbtstat'') [js ''-A'', ip]
      in (case runCommand w (js ''nbtstat'') [js ''-A'', ip] of
            None \<Rightarrow> (Unknown, [cmd])
          | Some out \<Rightarrow>
              (case regexExec nbtRegex (stdout out) 0 of
                 Some (b, e, [name]) \<Rightarrow> (if name \<noteq> [] then name else Unknown, [cmd])
               | _ \<Rightarrow> (Unknown, [cmd]))))"

text \<open>
  The pattern that \<open>getDeviceName\<close> builds from the address, with the flag \<open>s\<close>:
  \<open>lease ${ip} {[^}]*client-hostname "([^"]+)"\<close>. The address is a key of the neighbor
  map, digits and dots; a dot of the address stands in the pattern and matches any
  character.
\<close>

definition leaseRegex :: "jsstring \<Rightarrow> regex" where
  "leaseRegex ip =
     \<lparr> items = lits ''lease '' @ map (\<lambda>c. if c = 46 then Cls (\<lambda>_. True) else Lit c) ip @
                 lits '' {'' @ [Rept (\<lambda>c. c \<noteq> 125) 0 None] @ lits ''client-hostname '' @
                 [Lit 34, Open, Rept (\<lambda>c. c \<noteq> 34) 1 None, Close, Lit 34],
       mode = plain \<rparr>"

text \<open>\<open>/<friendlyName>([^<]+)<\/friendlyName>/i\<close>\<close>

definition friendlyRegex :: regex where
  "friendlyRegex =
     \<lparr> items = lits ''<friendlyName>'' @ [Open, Rept (\<lambda>c. c \<noteq> 60) 1 None, Close] @
                 lits ''</friendlyName>'',
       mode = \<lparr> multiline = False, ignoreCase = True \<rparr> \<rparr>"

definition leasesPath :: jsstring where
  "leasesPath = js ''/var/lib/dhcp/dhclient.leases''"

definition upnpUrl :: "jsstring \<Rightarrow> jsstring" where
  "upnpUrl ip = js ''http://'' @ ip @ js '':1900/description.xml''"

text \<open>The first \<open>try\<close> block of \<open>getDeviceName\<close>: the host name of the lease, if there is one.\<close>

definition leaseName :: "world \<Rightarrow> jsstring \<Rightarrow> jsstring option" where
  "leaseName w ip =
     (case readTextFile w leasesPath of
        None \<Rightarrow> None
      | Some dhcpLeases \<Rightarrow>
          (case regexExec (leaseRegex ip) dhcpLeases 0 of
             Some (b, e, [host]) \<Rightarrow> if host \<noteq> [] then Some host else None
           | _ \<Rightarrow> None))"

text \<open>The second \<open>try\<close> block: the friendly name of the UPnP description, if there is one.\<close>

definition upnpName :: "world \<Rightarrow> jsstring \<Rightarrow> jsstring option" where
  "upnpName w ip =
     (case fetch w (upnpUrl ip) of
        None \<Rightarrow> None
      | Some response \<Rightarrow>
          if ok response
          then (case body response of
                  None \<Rightarrow> None
                | Some txt \<Rightarrow>
                    (case regexExec friendlyRegex txt 0 of
                       Some (b, e, [friendly]) \<Rightarrow> if friendly \<noteq> [] then Some friendly else None
                     | _ \<Rightarrow> None))
          else None)"

definition getDeviceName :: "world \<Rightarrow> jsstring \<Rightarrow> jsstring \<times> call list" where
  "getDeviceName w ip =
     (case leaseName w ip of
        Some host \<Rightarrow> (host, [ReadTextFile leasesPath])
      | None \<Rightarrow>
          (case upnpName w ip of
             Some friendly \<Rightarrow> (friendly, [ReadTextFile leasesPath, Fetch (upnpUrl ip)])
           | None \<Rightarrow> (Unknown, [ReadTextFile leasesPath, Fetch (upnpUrl ip)])))"

text \<open>
  \<open>a || b\<close> on strings: \<open>a\<close> when it is not empty, and only otherwise is \<open>b\<close> evaluated,
  so only then are its calls made.
\<close>

definition orElse :: "jsstring \<times> call list \<Rightarrow> jsstring \<times> call list \<Rightarrow> jsstring \<times> call list" where
  "orElse a b = (if fst a \<noteq> [] then a else (fst b, snd a @ snd b))"

text \<open>
  The chain of \<open>enrichDevices\<close>:
  \<open>await getDeviceName(ip) || await resolveMdnsName(ip) || await resolveNetbiosName(ip) || await resolveDnsName(ip)\<close>.
\<close>

definition resolveName :: "world \<Rightarrow> jsstring \<Rightarrow> jsstring \<times> call list" where
  "resolveName w ip =
     orElse (orElse (orElse (getDeviceName w ip) (resolveMdnsName w ip))
                    (resolveNetbiosName w ip))
            (resolveDnsName w ip)"

section \<open>Enrichment\<close>

record NetworkDevice =
  ip :: jsstring
  mac :: jsstring
  interface :: jsstring
  vendor :: jsstring
  name :: jsstring

text \<open>\<open>/\s+/g\<close> and \<open>/:/g\<close>\<close>

definition spaces :: regex where
  "spaces = \<lparr> items = [Rept isSpace 1 None], mode = plain \<rparr>"

definition colons :: regex where
  "colons = \<lparr> items = [Lit 58], mode = plain \<rparr>"

type_synonym ouiTable = "jsstring \<rightharpoonup> jsstring"

text \<open>
  \<open>loadOuiDatabase\<close>: the entries of the file, folded into a table keyed by the
  upper-cased prefix; a later entry overwrites an earlier one, and any failure gives the
  empty table.
\<close>

definition loadOuiDatabase :: "world \<Rightarrow> ouiTable" where
  "loadOuiDatabase w =
     (case ouiEntries w of
        None \<Rightarrow> Map.empty
      | Some entries \<Rightarrow>
          foldl (\<lambda>acc entry. acc(toUpperCase (prefix entry) \<mapsto> organization_name entry))
            Map.empty entries)"

text \<open>
  The vendor of \<open>enrichDevices\<close>: \<open>cleanMac = mac.replace(/:/g, "").toUpperCase()\<close>,
  \<open>oui = cleanMac.slice(0, 6)\<close> and \<open>this.ouiDatabase?.[oui] || "Unknown"\<close>.
\<close>

definition cleanMacOf :: "jsstring \<Rightarrow> jsstring" where
  "cleanMacOf m = toUpperCase (replaceAll colons m [])"

definition vendorOf :: "ouiTable option \<Rightarrow> jsstring \<Rightarrow> jsstring" where
  "vendorOf db m =
     (let oui = take 6 (cleanMacOf m)
      in (case db of
            None \<Rightarrow> Unknown
          | Some table \<Rightarrow>
              (case table oui of
                 None \<Rightarrow> Unknown
               | Some v \<Rightarrow> if v \<noteq> [] then v else Unknown)))"

text \<open>
  \<open>enrichDevices\<close>: one device per entry, in the order of the entries; the name is
  resolved for one device after the other.
\<close>

definition enrichDevices ::
  "world \<Rightarrow> ouiTable option \<Rightarrow> (jsstring \<times> jsstring) list \<Rightarrow> jsstring \<Rightarrow> NetworkDevice list" where
  "enrichDevices w db devices interfaceName =
     map (\<lambda>(i, m).
            (let nm = fst (resolveName w i);
                 cleanMac = cleanMacOf m;
                 vnd = vendorOf db m
             in \<lparr> ip = i,
                  mac = formatMac cleanMac,
                  interface = interfaceName,
                  vendor = vnd,
                  name = trim (replaceAll spaces nm [32]) \<rparr>))
         devices"

section \<open>The probe sweep\<close>

text \<open>
  \<open>pingSubnet\<close> starts one probe per candidate and awaits them in batches: the result is
  the list of the batches, each the targets that are started together and awaited
  together by \<open>await Promise.all(batch)\<close>. The outcome of a probe is dropped by
  \<open>.then(() => {}).catch(() => {})\<close>.
\<close>

definition BATCH_SIZE :: nat where
  "BATCH_SIZE = 50"

fun pingLoop :: "jsstring list \<Rightarrow> jsstring list \<Rightarrow> jsstring list list \<Rightarrow> jsstring list list" where
  "pingLoop [] batch awaited = (if length batch > 0 then awaited @ [batch] else awaited)"
| "pingLoop (targetIp # ips) batch awaited =
     (let batch' = batch @ [targetIp]
      in if length batch' \<ge> BATCH_SIZE then pingLoop ips [] (awaited @ [batch'])
         else pingLoop ips batch' awaited)"

definition pingSubnet :: "jsstring \<Rightarrow> jsstring \<Rightarrow> nat \<Rightarrow> jsstring list list" where
  "pingSubnet addr nmask timeout = pingLoop (calculateSubnet addr nmask) [] []"

section \<open>The scan\<close>

text \<open>\<open>getArpCache\<close>: the parsed output of \<open>arp -a\<close>; the empty map when the command throws.\<close>

definition getArpCache :: "world \<Rightarrow> nat \<Rightarrow> arpMap" where
  "getArpCache w k =
     (case arpRun w k of
        None \<Rightarrow> []
      | Some out \<Rightarrow> parseArpOutput (stdout out))"

record ScanOptions =
  interfaceFilter :: "jsstring option"
  pingTimeout :: "nat option"

datatype error = InterfacesUnavailable

text \<open>
  The loop of \<open>scan\<close> over the interfaces. \<open>k\<close> counts the runs of \<open>arp -a\<close> so far,
  \<open>results\<close> are the devices found so far and \<open>probes\<close> the batches of probes awaited so
  far.
\<close>

fun scanLoop ::
  "world \<Rightarrow> ouiTable option \<Rightarrow> ScanOptions \<Rightarrow> NetworkInterfaceInfo list \<Rightarrow> nat
     \<Rightarrow> NetworkDevice list \<Rightarrow> jsstring list list
     \<Rightarrow> NetworkDevice list \<times> jsstring list list" where
  "scanLoop w db options [] k results probes = (results, probes)"
| "scanLoop w db options (iface # rest) k results probes =
     (if (case interfaceFilter options of
            None \<Rightarrow> False
          | Some f \<Rightarrow> f \<noteq> [] \<and> ifname iface \<noteq> f)
      then scanLoop w db options rest k results probes
      else if family iface \<noteq> IPv4
      then scanLoop w db options rest k results probes
      else (let probes' = probes @ pingSubnet (address iface) (netmask iface)
                                     (case pingTimeout options of None \<Rightarrow> 100 | Some t \<Rightarrow> t);
                arpCache = getArpCache w k
            in if length arpCache = 0
               then scanLoop w db options rest (k + 1) results probes'
               else (let subnetDevices =
                           filterSubnetDevices arpCache (address iface) (netmask iface)
                     in if length subnetDevices = 0
                        then scanLoop w db options rest (k + 1) results probes'
                        else scanLoop w db options rest (k + 1)
                               (results @ enrichDevices w db subnetDevices (ifname iface))
                               probes')))"

text \<open>The vendor table is the only state of the scanner: loaded by the first scan, then kept.\<close>

record scanner =
  ouiDatabase :: "ouiTable option"

text \<open>
  \<open>scan\<close>: the devices, or the error of an interface enumeration that throws; the
  batches of probes that were awaited; and the scanner afterwards.
\<close>

definition scan ::
  "world \<Rightarrow> scanner \<Rightarrow> ScanOptions
     \<Rightarrow> (error + NetworkDevice list) \<times> jsstring list list \<times> scanner" where
  "scan w st options =
     (let table = (case ouiDatabase st of None \<Rightarrow> loadOuiDatabase w | Some t \<Rightarrow> t);
          st' = st\<lparr> ouiDatabase := Some table \<rparr>
      in (case networkInterfaces w of
            None \<Rightarrow> (Inl InterfacesUnavailable, [], st')
          | Some interfaces \<Rightarrow>
              (let (results, probes) = scanLoop w (Some table) options interfaces 0 [] []
               in (Inr results, probes, st'))))"

section \<open>Auxiliary notions of the proofs\<close>

text \<open>The least number of characters a pattern consumes, and the number of its groups.\<close>

fun minLen :: "item list \<Rightarrow> nat" where
  "minLen [] = 0"
| "minLen (Lit c # r) = 1 + minLen r"
| "minLen (Cls p # r) = 1 + minLen r"
| "minLen (Rept p lo None # r) = lo + minLen r"
| "minLen (Rept p lo (Some h) # r) = min lo h + minLen r"
| "minLen (Bol # r) = minLen r"
| "minLen (Eol # r) = minLen r"
| "minLen (Open # r) = minLen r"
| "minLen (Close # r) = minLen r"

fun closes :: "item list \<Rightarrow> nat" where
  "closes [] = 0"
| "closes (Close # r) = Suc (closes r)"
| "closes (x # r) = closes r"

text \<open>One turn of each loop: the entry a match writes, unless its address is all zeros.\<close>

definition put :: "arpMap \<Rightarrow> jsstring \<Rightarrow> jsstring \<Rightarrow> arpMap" where
  "put m a v = (if v \<noteq> zeroMac then Map_set m a v else m)"

text \<open>
  The scan, interface by interface: whether an interface is scanned, the devices of the
  pass over one interface, given the number of the run of \<open>arp -a\<close> it reads, and the
  passes over a list of interfaces, one block of devices for each interface.
\<close>

definition selected :: "ScanOptions \<Rightarrow> NetworkInterfaceInfo \<Rightarrow> bool" where
  "selected options iface =
     (\<not> (case interfaceFilter options of None \<Rightarrow> False | Some f \<Rightarrow> f \<noteq> [] \<and> ifname iface \<noteq> f) \<and>
      family iface = IPv4)"

definition passDevices ::
  "world \<Rightarrow> ouiTable option \<Rightarrow> nat \<Rightarrow> NetworkInterfaceInfo \<Rightarrow> NetworkDevice list" where
  "passDevices w db k iface =
     enrichDevices w db
       (filterSubnetDevices (getArpCache w k) (address iface) (netmask iface)) (ifname iface)"

fun passes ::
  "world \<Rightarrow> ouiTable option \<Rightarrow> ScanOptions \<Rightarrow> NetworkInterfaceInfo list \<Rightarrow> nat
     \<Rightarrow> NetworkDevice list list" where
  "passes w db options [] k = []"
| "passes w db options (iface # rest) k =
     (if selected options iface
      then passDevices w db k iface # passes w db options rest (k + 1)
      else [] # passes w db options rest k)"

section \<open>Worlds for the examples\<close>

text \<open>
  \<open>quietWorld\<close>: no interface, and every file, command, request and lookup fails.
  \<open>dnsWorld\<close>: the same, but every \<open>PTR\<close> lookup answers \<open>host.example.com.\<close>
\<close>

definition quietWorld :: world where
  "quietWorld = \<lparr> networkInterfaces = Some [], ouiEntries = None, arpRun = (\<lambda>k. None),
                   readTextFile = (\<lambda>p. None), fetch = (\<lambda>u. None),
                   runCommand = (\<lambda>c args. None), resolveDns = (\<lambda>q. None) \<rparr>"

definition dnsWorld :: world where
  "dnsWorld = quietWorld \<lparr> resolveDns := (\<lambda>q. Some [js ''host.example.com.'']) \<rparr>"

text \<open>
  \<open>lanWorld exitCode arpText\<close>: one IPv4 interface \<open>eth0\<close> at 10.0.0.1/255.255.255.0, and
  every run of \<open>arp -a\<close> exits with \<open>exitCode\<close> after printing \<open>arpText\<close>.
  \<open>noArpWorld\<close>: the same interface, and \<open>arp\<close> cannot be run.
\<close>

definition lanInterface :: NetworkInterfaceInfo where
  "lanInterface = \<lparr> ifname = js ''eth0'', family = IPv4, address = js ''10.0.0.1'',
                     netmask = js ''255.255.255.0'' \<rparr>"

definition lanWorld :: "int \<Rightarrow> string \<Rightarrow> world" where
  "lanWorld exitCode arpText =
     quietWorld \<lparr> networkInterfaces := Some [lanInterface],
                  arpRun := (\<lambda>k. Some \<lparr> code = exitCode, stdout = js arpText \<rparr>) \<rparr>"

definition noArpWorld :: world where
  "noArpWorld = quietWorld \<lparr> networkInterfaces := Some [lanInterface] \<rparr>"

text \<open>
  \<open>twoLanWorld\<close>: two IPv4 interfaces, \<open>eth0\<close> at 10.0.0.1/255.255.255.0 and \<open>eth1\<close> at
  10.0.1.1/255.255.255.0; the first run of \<open>arp -a\<close> cannot be launched, every later run
  prints one entry of the second subnet.
\<close>

definition lanInterface1 :: NetworkInterfaceInfo where
  "lanInterface1 = \<lparr> ifname = js ''eth1'', family = IPv4, address = js ''10.0.1.1'',
                      netmask = js ''255.255.255.0'' \<rparr>"

definition twoLanWorld :: world where
  "twoLanWorld =
     quietWorld \<lparr> networkInterfaces := Some [lanInterface, lanInterface1],
                  arpRun := (\<lambda>k. if k = 0 then None
                                  else Some \<lparr> code = 0, stdout = js ''10.0.1.5 aa-bb-cc-dd-ee-ff'' \<rparr>) \<rparr>"

section \<open>The well-formed hardware address\<close>

text \<open>
  The hardware address that the specification asks of a discovered device, in its own
  words "a well-formed 6-octet hex string", colon-separated and uppercase: six groups of
  two uppercase hexadecimal digits with a colon between two groups. This predicate is
  not part of the scanner; the devices of a scan are compared with it.
\<close>

definition isUpperHexDigit :: "nat \<Rightarrow> bool" where
  "isUpperHexDigit c = (isDigit c \<or> (65 \<le> c \<and> c \<le> 70))"

fun octetGroups :: "nat \<Rightarrow> jsstring \<Rightarrow> bool" where
  "octetGroups (Suc 0) [a, b] = (isUpperHexDigit a \<and> isUpperHexDigit b)"
| "octetGroups (Suc (Suc n)) (a # b # c # rest) =
     (isUpperHexDigit a \<and> isUpperHexDigit b \<and> c = 58 \<and> octetGroups (Suc n) rest)"
| "octetGroups n m = False"

definition wellFormedMac :: "jsstring \<Rightarrow> bool" where
  "wellFormedMac m = octetGroups 6 m"

section \<open>Properties of addresses\<close>

text \<open>Reading back the decimal notation of a number.\<close>

lemma decimal_nonempty: "decimal n \<noteq> []"
  by (subst decimal.simps) simp

lemma decimal_small: "n < 10 \<Longrightarrow> decimal n = [48 + n]"
  by (subst decimal.simps) simp

lemma decimal_large: "\<not> n < 10 \<Longrightarrow> decimal n = decimal (n div 10) @ [48 + n mod 10]"
  by (subst decimal.simps) simp

lemma decimal_digits: "c \<in> set (decimal n) \<Longrightarrow> isDigit c"
proof (induction n rule: decimal.induct)
  case (1 n)
  show ?case
  proof (cases "n < 10")
    case True
    with "1.prems" show ?thesis by (simp add: decimal_small isDigit_def)
  next
    case False
    with "1.prems" have "c \<in> set (decimal (n div 10)) \<or> c = 48 + n mod 10"
      by (auto simp: decimal_large)
    with "1.IH" [OF False] show ?thesis by (auto simp: isDigit_def)
  qed
qed

lemma decimal_value:
  "foldl (\<lambda>a c. a * 10 + digitValue c) 0 (decimal n) = n"
proof (induction n rule: decimal.induct)
  case (1 n)
  show ?case
  proof (cases "n < 10")
    case True
    then show ?thesis by (simp add: decimal_small digitValue_def isDigit_def)
  next
    case False
    have "digitValue (48 + n mod 10) = n mod 10"
      by (simp add: digitValue_def isDigit_def)
    with "1.IH" [OF False] False show ?thesis by (simp add: decimal_large)
  qed
qed

lemma takeWhile_all: "(\<And>c. c \<in> set xs \<Longrightarrow> P c) \<Longrightarrow> takeWhile P xs = xs"
  by (induction xs) auto

lemma digit_not_space: "isDigit c \<Longrightarrow> \<not> isSpace c"
  by (auto simp: isDigit_def isSpace_def)

lemma parseInt_digits:
  assumes "z \<noteq> []" and "\<forall>x\<in>set z. isDigit x"
  shows "parseInt z =
     (case roundDouble (foldl (\<lambda>a c. a * 10 + digitValue c) 0 z) of
        None \<Rightarrow> Infinity False
      | Some v \<Rightarrow> Finite (int v))"
proof -
  from assms(1) obtain c cs where z: "z = c # cs" by (cases z) auto
  with assms(2) have c: "isDigit c" and cs: "\<forall>x\<in>set cs. isDigit x" by simp_all
  have tw: "takeWhile isDigit cs = cs" using cs by simp
  have 1: "\<not> isSpace c" using c by (rule digit_not_space)
  have 2: "c \<noteq> 43" "c \<noteq> 45" using c by (auto simp: isDigit_def)
  have 3: "\<not> (case cs of [] \<Rightarrow> False | b # x \<Rightarrow> c = 48 \<and> (b = 120 \<or> b = 88))"
    using cs by (cases cs) (auto simp: isDigit_def)
  show ?thesis
    unfolding parseInt_def z
    by (simp add: 1 2 3 c tw Let_def del: foldl_Cons split: option.splits)
qed

lemma parseInt_decimal:
  assumes "n < 2 ^ 53"
  shows "parseInt (decimal n) = Finite (int n)"
proof -
  have "roundDouble n = Some n" using assms by (simp add: roundDouble_def)
  then show ?thesis
    using parseInt_digits [of "decimal n"] decimal_nonempty [of n] decimal_digits [of _ n]
    by (simp add: decimal_value)
qed

lemma js_split_nonempty: "js_split sep s \<noteq> []"
  by (induction s) (auto split: list.splits)

lemma js_split_single: "sep \<notin> set x \<Longrightarrow> js_split sep x = [x]"
  by (induction x) auto

lemma js_split_append:
  "sep \<notin> set x \<Longrightarrow> js_split sep (x @ sep # rest) = x # js_split sep rest"
  by (induction x) (auto split: list.splits)

lemma dot_not_in_decimal: "46 \<notin> set (decimal n)"
  using decimal_digits [of 46 n] by (auto simp: isDigit_def)

text \<open>\<open>ipToNumber\<close> of a dotted quad is the 32-bit value of its octets.\<close>

lemma or_octet:
  fixes w :: "32 word"
  assumes "x < 256"
  shows "push_bit 8 w OR word_of_nat x = w * 256 + word_of_nat x"
proof -
  have "take_bit 8 x = x" using assms by (simp add: take_bit_nat_eq_self_iff)
  then have x: "(word_of_nat x :: 32 word) = take_bit 8 (word_of_nat x)"
    by (metis of_nat_take_bit)
  have "push_bit 8 w AND take_bit 8 (word_of_nat x :: 32 word) = 0"
    by (rule bit_word_eqI) (auto simp: bit_simps)
  with x have "push_bit 8 w AND word_of_nat x = 0" by simp
  then have "push_bit 8 w + word_of_nat x = push_bit 8 w OR word_of_nat x"
    by (rule disjunctive_add_eq_or)
  then show ?thesis by (simp add: push_bit_eq_mult)
qed

lemma split_dotted:
  "js_split 46 (dotted a b c d) = [decimal a, decimal b, decimal c, decimal d]"
  using js_split_append [OF dot_not_in_decimal, of a] js_split_append [OF dot_not_in_decimal, of b]
    js_split_append [OF dot_not_in_decimal, of c] js_split_single [OF dot_not_in_decimal, of d]
  by (simp add: dotted_def)

lemma ToInt32_decimal: "x < 256 \<Longrightarrow> ToInt32 (parseInt (decimal x)) = word_of_nat x"
  by (simp add: parseInt_decimal)

lemma ipToNumber_dotted:
  assumes "a < 256" "b < 256" "c < 256" "d < 256"
  shows "ipToNumber (dotted a b c d) = quad32 a b c d"
  using assms
  by (simp add: ipToNumber_def split_dotted ToInt32_decimal or_octet quad32_def algebra_simps)

text \<open>\<open>dottedQuad\<close> prints the four octets of a word, and \<open>ipToNumber\<close> reads them back.\<close>

lemma byte_of_word:
  fixes w :: "32 word"
  shows "unat (drop_bit k w AND 255) = unat w div 2 ^ k mod 256"
proof -
  have "(255 :: 32 word) = mask 8" by (simp add: mask_eq_exp_minus_1)
  then have "drop_bit k w AND 255 = take_bit 8 (drop_bit k w)"
    by (simp only: take_bit_eq_mask)
  then have "unat (drop_bit k w AND 255) = take_bit 8 (drop_bit k (unat w))"
    by (simp only: unsigned_take_bit_eq unat_drop_bit_eq)
  also have "\<dots> = unat w div 2 ^ k mod 256"
    by (simp only: take_bit_eq_mod drop_bit_eq_div) simp
  finally show ?thesis .
qed

lemma div_octets:
  fixes n :: nat
  shows "n div 2 ^ 8 = n div 256" "n div 2 ^ 16 = n div 256 div 256"
    "n div 2 ^ 24 = n div 256 div 256 div 256"
  by (simp_all add: div_mult2_eq [symmetric])

lemma octet_step:
  fixes q y :: nat
  assumes "y < 256"
  shows "(q * 256 + y) div 256 = q" "(q * 256 + y) mod 256 = y"
  using assms by simp_all

lemma dottedQuad_bytes:
  "dottedQuad cur =
     dotted (unat (word_of_int cur :: 32 word) div 256 div 256 div 256 mod 256)
            (unat (word_of_int cur :: 32 word) div 256 div 256 mod 256)
            (unat (word_of_int cur :: 32 word) div 256 mod 256)
            (unat (word_of_int cur :: 32 word) mod 256)"
  using byte_of_word [of 24 "word_of_int cur"] byte_of_word [of 16 "word_of_int cur"]
    byte_of_word [of 8 "word_of_int cur"] byte_of_word [of 0 "word_of_int cur"]
  by (simp add: dottedQuad_def dotted_def Let_def div_octets del: power_numeral)

lemma quad32_nested:
  "quad32 a b c d = word_of_nat (((a * 256 + b) * 256 + c) * 256 + d)"
  by (simp add: quad32_def algebra_simps)

lemma quad32_bytes:
  fixes w :: "32 word"
  shows "quad32 (unat w div 256 div 256 div 256 mod 256) (unat w div 256 div 256 mod 256)
                (unat w div 256 mod 256) (unat w mod 256) = w"
proof -
  define x where "x = unat w"
  define q1 where "q1 = x div 256"
  define q2 where "q2 = q1 div 256"
  define q3 where "q3 = q2 div 256"
  have "x < 2 ^ 32" using unsigned_less [of w] by (simp add: x_def)
  then have "q1 < 16777216" unfolding q1_def by (intro less_mult_imp_div_less) simp
  then have "q2 < 65536" unfolding q2_def by (intro less_mult_imp_div_less) simp
  then have "q3 < 256" unfolding q3_def by (intro less_mult_imp_div_less) simp
  then have "q3 mod 256 = q3" by simp
  moreover have "x = q1 * 256 + x mod 256" "q1 = q2 * 256 + q1 mod 256"
    "q2 = q3 * 256 + q2 mod 256"
    by (simp_all add: q1_def q2_def q3_def)
  ultimately have "((q3 mod 256 * 256 + q2 mod 256) * 256 + q1 mod 256) * 256 + x mod 256 = x"
    by simp
  then show ?thesis
    by (simp add: quad32_nested q3_def q2_def q1_def x_def)
qed

lemma ipToNumber_dottedQuad: "ipToNumber (dottedQuad cur) = word_of_int cur"
  by (simp add: dottedQuad_bytes ipToNumber_dotted quad32_bytes)

lemma quad32_octets:
  assumes "a < 256" "b < 256" "c < 256" "d < 256"
  defines "N \<equiv> ((a * 256 + b) * 256 + c) * 256 + d"
  shows "unat (quad32 a b c d) = N"
    and "N div 256 div 256 div 256 mod 256 = a"
    and "N div 256 div 256 mod 256 = b"
    and "N div 256 mod 256 = c"
    and "N mod 256 = d"
proof -
  have 1: "N div 256 = (a * 256 + b) * 256 + c" and 0: "N mod 256 = d"
    unfolding N_def using assms(4) by (rule octet_step)+
  have 2: "((a * 256 + b) * 256 + c) div 256 = a * 256 + b"
    and c: "((a * 256 + b) * 256 + c) mod 256 = c"
    using assms(3) by (rule octet_step)+
  have 3: "(a * 256 + b) div 256 = a" and b: "(a * 256 + b) mod 256 = b"
    using assms(2) by (rule octet_step)+
  have a: "a mod 256 = a" using assms(1) by simp
  show "N div 256 div 256 div 256 mod 256 = a" by (simp only: 1 2 3 a)
  show "N div 256 div 256 mod 256 = b" by (simp only: 1 2 b)
  show "N div 256 mod 256 = c" by (simp only: 1 c)
  show "N mod 256 = d" by (rule 0)
  have "a * 256 + b < 256 * 256" using assms(1,2) by simp
  then have "(a * 256 + b) * 256 + c < 256 * 256 * 256" using assms(3) by simp
  then have "N < 256 * 256 * 256 * 256" unfolding N_def using assms(4) by simp
  then have "N mod 2 ^ LENGTH(32) = N" by simp
  moreover have "quad32 a b c d = word_of_nat N"
    unfolding N_def by (rule quad32_nested)
  ultimately show "unat (quad32 a b c d) = N" by (simp only: unat_of_nat)
qed

lemma dottedQuad_quad32:
  assumes "a < 256" "b < 256" "c < 256" "d < 256"
  shows "dottedQuad (uint (quad32 a b c d)) = dotted a b c d"
  using quad32_octets [OF assms] by (simp only: dottedQuad_bytes word_of_int_uint)

lemma subnetLoop_upto: "subnetLoop cur bc = map dottedQuad [cur .. bc - 1]"
proof (induction cur bc rule: subnetLoop.induct)
  case (1 cur bc)
  show ?case
  proof (cases "cur < bc")
    case True
    with 1 have "subnetLoop cur bc = dottedQuad cur # map dottedQuad [cur + 1 .. bc - 1]"
      by (subst subnetLoop.simps) simp
    also have "\<dots> = map dottedQuad [cur .. bc - 1]"
      using True by (simp add: upto_rec1 [of cur "bc - 1"])
    finally show ?thesis .
  next
    case False
    then show ?thesis by (subst subnetLoop.simps) simp
  qed
qed

text \<open>
  The loop of \<open>calculateSubnet\<close> compares signed numbers. Where network and broadcast
  have the same sign, which is so when the leading bit of the mask is set, the addresses
  it yields are those strictly between the two as unsigned numbers.
\<close>

lemma sint_as_uint:
  fixes w :: "32 word"
  shows "sint w = uint w - (if bit w 31 then 4294967296 else 0)"
proof -
  have "take_bit 32 (uint w) = uint w"
    using take_bit_int_eq_self_iff [of 32 "uint w"] unsigned_less [of w] by simp
  then show ?thesis
    by (simp add: sint_uint signed_take_bit_eq_take_bit_minus bit_uint_iff)
qed

lemma dottedQuad_shift: "dottedQuad (x - 4294967296) = dottedQuad x"
proof -
  have "(word_of_int (x - 4294967296) :: 32 word) = word_of_int x"
    by (rule word_of_int_eq_iff [THEN iffD2]) (simp add: take_bit_eq_mod)
  then show ?thesis by (simp only: dottedQuad_def)
qed

lemma upto_shift: "[i - k .. j - k] = map (\<lambda>x. x - k) [i .. j]" for i j k :: int
proof (induction "nat (j - i + 1)" arbitrary: i)
  case 0
  then show ?case by simp
next
  case (Suc n)
  then have le: "i \<le> j" and n: "n = nat (j - (i + 1) + 1)" by simp_all
  from Suc(1) [OF n] le show ?case
    by (simp add: upto_rec1 [of i j] upto_rec1 [of "i - k" "j - k"] algebra_simps)
qed

lemma same_sign_interval:
  fixes n bc :: "32 word"
  assumes "bit n 31 = bit bc 31"
  shows "map dottedQuad [sint n + 1 .. sint bc - 1] = map dottedQuad [uint n + 1 .. uint bc - 1]"
proof (cases "bit n 31")
  case False
  with assms show ?thesis by (simp add: sint_as_uint)
next
  case True
  with assms have "[sint n + 1 .. sint bc - 1] =
      [(uint n + 1) - 4294967296 .. (uint bc - 1) - 4294967296]"
    by (simp add: sint_as_uint)
  also have "\<dots> = map (\<lambda>x. x - 4294967296) [uint n + 1 .. uint bc - 1]"
    by (rule upto_shift)
  finally show ?thesis by (simp add: dottedQuad_shift comp_def)
qed

lemma calculateSubnet_signed:
  "calculateSubnet addr nm =
     map dottedQuad [sint (ipToNumber addr AND ipToNumber nm) + 1 ..
                     sint ((ipToNumber addr AND ipToNumber nm) OR NOT (ipToNumber nm)) - 1]"
  by (simp add: calculateSubnet_def subnetLoop_upto Let_def)

lemma calculateSubnet_unsigned:
  assumes "bit (ipToNumber nm) 31"
  shows "calculateSubnet addr nm =
     map dottedQuad [uint (ipToNumber addr AND ipToNumber nm) + 1 ..
                     uint ((ipToNumber addr AND ipToNumber nm) OR NOT (ipToNumber nm)) - 1]"
proof -
  have "bit (ipToNumber addr AND ipToNumber nm) 31 =
        bit ((ipToNumber addr AND ipToNumber nm) OR NOT (ipToNumber nm)) 31"
    using assms by (simp add: bit_simps)
  then show ?thesis
    unfolding calculateSubnet_signed by (rule same_sign_interval)
qed

lemma dottedQuad_inj:
  assumes "dottedQuad x = dottedQuad y" "0 \<le> x" "x < 2 ^ 32" "0 \<le> y" "y < 2 ^ 32"
  shows "x = y"
proof -
  from assms(1) have "ipToNumber (dottedQuad x) = ipToNumber (dottedQuad y)" by simp
  then have "(word_of_int x :: 32 word) = word_of_int y" by (simp add: ipToNumber_dottedQuad)
  then have "x mod 2 ^ 32 = y mod 2 ^ 32" by (simp add: word_of_int_eq_iff take_bit_eq_mod)
  with assms(2-5) show ?thesis by simp
qed

lemma not_in_open_interval:
  fixes n bc :: "32 word"
  shows "dottedQuad (uint n) \<notin> set (map dottedQuad [uint n + 1 .. uint bc - 1])"
    and "dottedQuad (uint bc) \<notin> set (map dottedQuad [uint n + 1 .. uint bc - 1])"
proof -
  have r: "0 \<le> uint w \<and> uint w < 2 ^ 32" for w :: "32 word"
    using unsigned_less [of w] by simp
  show "dottedQuad (uint n) \<notin> set (map dottedQuad [uint n + 1 .. uint bc - 1])"
  proof
    assume "dottedQuad (uint n) \<in> set (map dottedQuad [uint n + 1 .. uint bc - 1])"
    then obtain x where x: "uint n + 1 \<le> x" "x \<le> uint bc - 1" "dottedQuad (uint n) = dottedQuad x"
      by auto
    have "0 \<le> x" "x < 2 ^ 32"
      using x(1,2) r [of bc] uint_ge_0 [of n] by linarith+
    with x(3) r [of n] have "uint n = x" by (intro dottedQuad_inj) auto
    with x show False by simp
  qed
  show "dottedQuad (uint bc) \<notin> set (map dottedQuad [uint n + 1 .. uint bc - 1])"
  proof
    assume "dottedQuad (uint bc) \<in> set (map dottedQuad [uint n + 1 .. uint bc - 1])"
    then obtain x where x: "uint n + 1 \<le> x" "x \<le> uint bc - 1" "dottedQuad (uint bc) = dottedQuad x"
      by auto
    have "0 \<le> x" "x < 2 ^ 32"
      using x(1,2) r [of bc] uint_ge_0 [of n] by linarith+
    with x(3) r [of bc] have "uint bc = x" by (intro dottedQuad_inj) auto
    with x show False by simp
  qed
qed

text \<open>The masks of a /24, a /31 and a /32.\<close>

lemma mask_octets:
  "quad32 255 255 255 0 = NOT (mask 8)"
  "quad32 255 255 255 254 = NOT 1"
  "quad32 255 255 255 255 = NOT 0"
  by (simp_all add: quad32_def mask_eq_exp_minus_1)

lemma clear_low_octet:
  fixes w v :: "32 word"
  shows "(push_bit 8 w OR take_bit 8 v) AND NOT (mask 8) = push_bit 8 w"
  by (rule bit_word_eqI) (auto simp: bit_simps)

lemma fill_low_octet:
  fixes w :: "32 word"
  shows "push_bit 8 w OR mask 8 = push_bit 8 w + 255"
proof -
  have "push_bit 8 w AND mask 8 = 0"
    by (rule bit_word_eqI) (auto simp: bit_simps)
  then have "push_bit 8 w + mask 8 = push_bit 8 w OR mask 8"
    by (rule disjunctive_add_eq_or)
  then show ?thesis by (simp add: mask_eq_exp_minus_1)
qed

lemma quad32_push:
  assumes "d < 256"
  shows "quad32 a b c d = push_bit 8 (word_of_nat ((a * 256 + b) * 256 + c)) OR take_bit 8 (word_of_nat d)"
proof -
  define X where "X = (a * 256 + b) * 256 + c"
  have "take_bit 8 d = d" using assms by (simp add: take_bit_nat_eq_self_iff)
  then have t: "take_bit 8 (word_of_nat d :: 32 word) = word_of_nat d"
    by (metis of_nat_take_bit)
  have "quad32 a b c d = word_of_nat (X * 256 + d)"
    unfolding X_def by (rule quad32_nested)
  also have "\<dots> = word_of_nat X * 256 + word_of_nat d" by simp
  also have "\<dots> = push_bit 8 (word_of_nat X) OR word_of_nat d"
    using or_octet [OF assms, of "word_of_nat X"] by simp
  finally show ?thesis by (simp only: t X_def)
qed

lemma network_24:
  assumes "d < 256"
  shows "quad32 a b c d AND quad32 255 255 255 0 = quad32 a b c 0"
proof -
  have "quad32 a b c 0 = push_bit 8 (word_of_nat ((a * 256 + b) * 256 + c))"
    using quad32_push [of 0 a b c] by simp
  then show ?thesis
    by (simp only: quad32_push [OF assms] mask_octets clear_low_octet)
qed

lemma broadcast_24:
  "quad32 a b c 0 OR NOT (quad32 255 255 255 0) = quad32 a b c 0 + 255"
proof -
  have "quad32 a b c 0 = push_bit 8 (word_of_nat ((a * 256 + b) * 256 + c))"
    using quad32_push [of 0 a b c] by simp
  then show ?thesis
    using fill_low_octet [of "word_of_nat ((a * 256 + b) * 256 + c)"]
    by (simp only: mask_octets bit.double_compl)
qed

lemma uint_quad32:
  assumes "a < 256" "b < 256" "c < 256" "d < 256"
  shows "uint (quad32 a b c d) = int (((a * 256 + b) * 256 + c) * 256) + int d"
  using quad32_octets(1) [OF assms] by (simp only: uint_nat of_nat_add)

lemma broadcast_24_quad32: "quad32 a b c 0 + 255 = quad32 a b c 255"
  by (simp add: quad32_nested)

lemma upto_from_upt: "[x + 1 .. x + int n] = map (\<lambda>k. x + int k) [1..<Suc n]"
proof (induction n)
  case 0
  then show ?case by simp
next
  case (Suc n)
  have "[x + 1 .. x + int (Suc n)] = [x + 1 .. x + int n] @ [x + int (Suc n)]"
    using upto_rec2 [of "x + 1" "x + int (Suc n)"] by simp
  with Suc show ?case by simp
qed

lemma calculateSubnet_24:
  assumes "a < 256" "b < 256" "c < 256" "d < 256"
  shows "calculateSubnet (dotted a b c d) (dotted 255 255 255 0) = map (dotted a b c) [1..<255]"
proof -
  define x where "x = int (((a * 256 + b) * 256 + c) * 256)"
  have m: "ipToNumber (dotted 255 255 255 0) = quad32 255 255 255 0"
    by (rule ipToNumber_dotted) simp_all
  have top: "bit (quad32 255 255 255 0) 31"
    by (simp add: mask_octets bit_simps)
  have n: "quad32 a b c d AND quad32 255 255 255 0 = quad32 a b c 0"
    using assms(4) by (rule network_24)
  have bc: "quad32 a b c 0 OR NOT (quad32 255 255 255 0) = quad32 a b c 255"
    by (simp only: broadcast_24 broadcast_24_quad32)
  have un: "uint (quad32 a b c 0) = x"
    using uint_quad32 [OF assms(1-3), of 0] by (simp add: x_def)
  have ub: "uint (quad32 a b c 255) = x + 255"
    using uint_quad32 [OF assms(1-3), of 255] by (simp add: x_def)
  have each: "dottedQuad (x + int k) = dotted a b c k" if "k < 256" for k
    using dottedQuad_quad32 [OF assms(1-3) that] uint_quad32 [OF assms(1-3) that]
    by (simp add: x_def)
  have "calculateSubnet (dotted a b c d) (dotted 255 255 255 0) =
      map dottedQuad [x + 1 .. x + int 254]"
    using calculateSubnet_unsigned [of "dotted 255 255 255 0" "dotted a b c d"] top
    by (simp add: m ipToNumber_dotted [OF assms] n bc un ub add.commute)
  also have "\<dots> = map (\<lambda>k. dottedQuad (x + int k)) [1..<255]"
    by (simp only: upto_from_upt [of x 254] map_map comp_def) simp
  also have "\<dots> = map (dotted a b c) [1..<255]"
    by (rule map_cong) (simp_all add: each)
  finally show ?thesis .
qed

lemma uint_or_le:
  fixes n x :: "32 word"
  shows "uint (n OR x) \<le> uint n + uint x"
proof -
  have "(uint n AND uint x) + (uint n OR uint x) = uint n + uint x"
    by (rule plus_and_or)
  moreover have "0 \<le> uint n AND uint x" by simp
  ultimately show ?thesis unfolding uint_or by linarith
qed

lemma calculateSubnet_empty:
  assumes "bit (ipToNumber nm) 31" "uint (NOT (ipToNumber nm)) \<le> 1"
  shows "calculateSubnet addr nm = []"
  using uint_or_le [of "ipToNumber addr AND ipToNumber nm" "NOT (ipToNumber nm)"] assms(2)
  by (simp add: calculateSubnet_unsigned [OF assms(1)])

lemma calculateSubnet_31_32:
  "calculateSubnet addr (dotted 255 255 255 254) = []"
  "calculateSubnet addr (dotted 255 255 255 255) = []"
proof -
  have m: "ipToNumber (dotted 255 255 255 254) = NOT 1" "ipToNumber (dotted 255 255 255 255) = NOT 0"
    by (simp_all add: ipToNumber_dotted mask_octets)
  show "calculateSubnet addr (dotted 255 255 255 254) = []"
    by (rule calculateSubnet_empty) (simp_all add: m bit_simps)
  show "calculateSubnet addr (dotted 255 255 255 255) = []"
    by (rule calculateSubnet_empty) (simp_all add: m bit_simps)
qed

lemma bit31_quad32:
  assumes "a < 256" "b < 256" "c < 256" "d < 256"
  shows "bit (quad32 a b c d) 31 \<longleftrightarrow> 128 \<le> a"
proof -
  define N where "N = ((a * 256 + b) * 256 + c) * 256 + d"
  have u: "unat (quad32 a b c d) = N" unfolding N_def using assms by (rule quad32_octets(1))
  have "N div 256 div 256 div 256 = a"
    unfolding N_def using assms by (simp only: octet_step)
  moreover have "N div (256 * (256 * (256 * 128))) = N div 256 div 256 div 256 div 128"
    by (simp only: div_mult2_eq)
  ultimately have "N div 2 ^ 31 = a div 128" by simp
  moreover have "odd (a div 128) \<longleftrightarrow> 128 \<le> a"
  proof (cases "128 \<le> a")
    case True
    with assms(1) have "a div 128 = 1" by simp
    with True show ?thesis by simp
  next
    case False
    then show ?thesis by simp
  qed
  moreover have "bit (unat (quad32 a b c d)) 31 \<longleftrightarrow> bit (quad32 a b c d) 31"
    by (simp add: bit_unsigned_iff)
  moreover have "bit N 31 \<longleftrightarrow> odd (N div 2 ^ 31)"
    by (rule bit_iff_odd)
  ultimately show ?thesis by (simp only: u)
qed

text \<open>Examples of the notation, and the ranges of two concrete networks.\<close>

lemma dotted_examples:
  "dotted 192 168 1 0 = js ''192.168.1.0''"
  "dotted 255 255 255 0 = js ''255.255.255.0''"
  "dotted 192 168 1 1 = js ''192.168.1.1''"
  "dotted 192 168 1 254 = js ''192.168.1.254''"
  by (simp_all add: dotted_def decimal.simps js_def)

lemma hd_map_upt: "i < j \<Longrightarrow> hd (map f [i..<j]) = f i"
  by (simp add: upt_conv_Cons)

lemma last_map_upt: "i < j \<Longrightarrow> last (map f [i..<j]) = f (j - 1)"
  by (simp add: last_map)

lemma subnet_192_168_1:
  "calculateSubnet (js ''192.168.1.0'') (js ''255.255.255.0'') = map (dotted 192 168 1) [1..<255]"
proof -
  have "calculateSubnet (dotted 192 168 1 0) (dotted 255 255 255 0) = map (dotted 192 168 1) [1..<255]"
    by (rule calculateSubnet_24) simp_all
  then show ?thesis by (simp only: dotted_examples)
qed

lemma subnet_slash0:
  "calculateSubnet (js ''10.0.0.1'') (js ''0.0.0.0'') = []"
  "uint (ipToNumber (js ''10.0.0.1'') AND ipToNumber (js ''0.0.0.0'')) = 0"
  "uint ((ipToNumber (js ''10.0.0.1'') AND ipToNumber (js ''0.0.0.0'')) OR NOT (ipToNumber (js ''0.0.0.0''))) = 4294967295"
proof -
  have m: "ipToNumber (js ''0.0.0.0'') = 0"
    using ipToNumber_dotted [of 0 0 0 0] by (simp add: dotted_def decimal.simps js_def quad32_def)
  show "calculateSubnet (js ''10.0.0.1'') (js ''0.0.0.0'') = []"
    by (simp add: calculateSubnet_signed m)
  show "uint (ipToNumber (js ''10.0.0.1'') AND ipToNumber (js ''0.0.0.0'')) = 0"
    by (simp add: m)
  show "uint ((ipToNumber (js ''10.0.0.1'') AND ipToNumber (js ''0.0.0.0'')) OR NOT (ipToNumber (js ''0.0.0.0''))) = 4294967295"
    by (simp add: m unsigned_minus_1_eq_mask mask_eq_exp_minus_1)
qed

text \<open>The filter, as a filter of the entries.\<close>

lemmas ip_eval = ipToNumber_def parseInt_def isSpace_def isDigit_def roundDouble_def
  digitValue_def js_def Let_def

lemma filterSubnetDevices_filter:
  "filterSubnetDevices arpCache addr nm =
     filter (\<lambda>entry. ipToNumber (fst entry) AND ipToNumber nm = ipToNumber addr AND ipToNumber nm)
       arpCache"
  by (simp add: filterSubnetDevices_def Let_def case_prod_unfold)

lemma filter_example:
  "filterSubnetDevices [(js ''10.0.0.5'', hw1), (js ''10.0.1.5'', hw2)]
     (js ''10.0.0.1'') (js ''255.255.255.0'') = [(js ''10.0.0.5'', hw1)]"
  by (simp add: filterSubnetDevices_filter ip_eval)

lemma dotted_10:
  "dotted 10 0 0 5 = js ''10.0.0.5''" "dotted 10 0 0 1 = js ''10.0.0.1''"
  by (simp_all add: dotted_def decimal.simps js_def)

section \<open>Termination of the loops over matches\<close>

text \<open>
  The equation of the quantifier calls the matcher on a pattern of the same shape, so
  it is unfolded by hand.
\<close>

lemmas matchHere_Rept = matchHere.simps(4)

declare matchHere.simps(4) [simp del]

lemma matchHere_Rept_cases:
  assumes "matchHere fl (Rept p lo hi # r) s i os cs = Some z"
  shows "(hi = Some 0 \<and> matchHere fl r s i os cs = Some z) \<or>
         (hi \<noteq> Some 0 \<and> i < length s \<and> p (s ! i) \<and>
            matchHere fl (Rept p (lo - 1) (decr hi) # r) s (i + 1) os cs = Some z) \<or>
         (hi \<noteq> Some 0 \<and> lo = 0 \<and> matchHere fl r s i os cs = Some z \<and>
            (i < length s \<and> p (s ! i) \<longrightarrow>
               matchHere fl (Rept p (lo - 1) (decr hi) # r) s (i + 1) os cs = None))"
  using assms
  by (subst (asm) matchHere_Rept) (auto simp: Let_def split: if_splits option.splits)

text \<open>
  Every match consumes at least the characters its items require, and ends inside the
  text. The two loops of the parser terminate because of it: a match of either pattern is
  at least 25 characters long.
\<close>

lemma minLen_Rept_step:
  "hi \<noteq> Some 0 \<Longrightarrow>
   minLen (Rept p lo hi # r) \<le> Suc (minLen (Rept p (lo - 1) (decr hi) # r))"
  by (cases hi) auto

lemma minLen_Rept_zero: "minLen (Rept p 0 hi # r) = minLen r"
  by (cases hi) auto

lemma minLen_Rept_none: "minLen (Rept p lo (Some 0) # r) = minLen r"
  by simp

lemma matchHere_minLen:
  "matchHere fl its s i os cs = Some (e, cs') \<Longrightarrow> i + minLen its \<le> e"
proof (induction fl its s i os cs rule: matchHere.induct)
  case (4 fl p lo hi r s i os cs)
  from matchHere_Rept_cases [OF 4(4)] show ?case
  proof (elim disjE conjE)
    assume "hi = Some 0" "matchHere fl r s i os cs = Some (e, cs')"
    with 4(1) show ?thesis by simp
  next
    assume a: "hi \<noteq> Some 0" "i < length s" "p (s ! i)"
      "matchHere fl (Rept p (lo - 1) (decr hi) # r) s (i + 1) os cs = Some (e, cs')"
    with 4(2) have "i + 1 + minLen (Rept p (lo - 1) (decr hi) # r) \<le> e" by simp
    with minLen_Rept_step [OF a(1), of p lo r] show ?thesis by linarith
  next
    assume a: "hi \<noteq> Some 0" "lo = 0" "matchHere fl r s i os cs = Some (e, cs')"
      "i < length s \<and> p (s ! i) \<longrightarrow>
         matchHere fl (Rept p (lo - 1) (decr hi) # r) s (i + 1) os cs = None"
    then have "(if i < length s \<and> p (s ! i)
        then matchHere fl (Rept p (lo - 1) (decr hi) # r) s (i + 1) os cs else None) = None"
      by simp
    from 4(3) [OF a(1) refl _ this a(3)] a(2) have "i + minLen r \<le> e" by simp
    then show ?thesis by (simp only: a(2) minLen_Rept_zero)
  qed
qed (auto split: if_splits list.splits)

lemma matchHere_end:
  "matchHere fl its s i os cs = Some (e, cs') \<Longrightarrow> i \<le> length s \<Longrightarrow> e \<le> length s"
proof (induction fl its s i os cs rule: matchHere.induct)
  case (4 fl p lo hi r s i os cs)
  from matchHere_Rept_cases [OF 4(4)] show ?case
  proof (elim disjE conjE)
    assume "hi = Some 0" "matchHere fl r s i os cs = Some (e, cs')"
    with 4(1,5) show ?thesis by simp
  next
    assume "hi \<noteq> Some 0" "i < length s" "p (s ! i)"
      "matchHere fl (Rept p (lo - 1) (decr hi) # r) s (i + 1) os cs = Some (e, cs')"
    with 4(2) show ?thesis by simp
  next
    assume a: "hi \<noteq> Some 0" "lo = 0" "matchHere fl r s i os cs = Some (e, cs')"
      "i < length s \<and> p (s ! i) \<longrightarrow>
         matchHere fl (Rept p (lo - 1) (decr hi) # r) s (i + 1) os cs = None"
    then have "(if i < length s \<and> p (s ! i)
        then matchHere fl (Rept p (lo - 1) (decr hi) # r) s (i + 1) os cs else None) = None"
      by simp
    from 4(3) [OF a(1) refl _ this a(3) 4(5)] a(2) show ?thesis by simp
  qed
qed (auto split: if_splits list.splits)

lemma regexExec_range:
  "regexExec re s i = Some (b, e, cs) \<Longrightarrow> i \<le> b \<and> b + minLen (items re) \<le> e \<and> e \<le> length s"
proof (induction re s i rule: regexExec.induct)
  case (1 re s i)
  from 1(2) have le: "i \<le> length s"
    by (subst (asm) regexExec.simps) (simp split: if_splits)
  show ?case
  proof (cases "matchHere (mode re) (items re) s i [] []")
    case None
    with 1(2) le have "regexExec re s (i + 1) = Some (b, e, cs)"
      by (subst (asm) regexExec.simps) simp
    with 1(1) [OF _ None] le show ?thesis by simp
  next
    case (Some z)
    with 1(2) le have "z = (e, cs)" "b = i"
      by (subst (asm) regexExec.simps, auto)+
    with Some matchHere_minLen [of "mode re" "items re" s i "[]" "[]" e cs]
      matchHere_end [of "mode re" "items re" s i "[]" "[]" e cs] le
    show ?thesis by simp
  qed
qed

lemma minLen_winRegex: "minLen (items winRegex) = 25"
  by (simp add: winRegex_def ipGroup_def)

lemma minLen_unixRegex: "minLen (items unixRegex) = 31"
  by (simp add: unixRegex_def ipGroup_def lits_def js_def)

lemma winRegex_progress:
  "regexExec winRegex s i = Some (b, e, cs) \<Longrightarrow> i < e \<and> e \<le> length s"
  using regexExec_range [of winRegex s i b e cs] by (simp add: minLen_winRegex)

lemma unixRegex_progress:
  "regexExec unixRegex s i = Some (b, e, cs) \<Longrightarrow> i < e \<and> e \<le> length s"
  using regexExec_range [of unixRegex s i b e cs] by (simp add: minLen_unixRegex)

text \<open>The loops of the parser terminate.\<close>

termination winLoop
  by (relation "measure (\<lambda>(output, lastIndex, arpMap). length output - lastIndex)")
     (auto dest!: winRegex_progress)

termination unixLoop
  by (relation "measure (\<lambda>(output, lastIndex, arpMap). length output - lastIndex)")
     (auto dest!: unixRegex_progress)

declare winLoop.simps [simp del]
declare unixLoop.simps [simp del]

termination rangeLoop
proof (relation "measure (\<lambda>(re, s, lastIndex). Suc (length s) - lastIndex)")
  fix re :: regex and s :: jsstring and lastIndex b e :: nat and x2 x2a cs
  assume "regexExec re s lastIndex = Some x2" "(b, x2a) = x2" "(e, cs) = x2a"
  then have "regexExec re s lastIndex = Some (b, e, cs)" by simp
  from regexExec_range [OF this]
  show "((re, s, if e = b then e + 1 else e), re, s, lastIndex)
        \<in> measure (\<lambda>(re, s, lastIndex). Suc (length s) - lastIndex)"
    by auto
qed simp

declare rangeLoop.simps [simp del]

section \<open>Properties of the neighbor-cache parser\<close>

text \<open>A match has one capture for each group of its pattern.\<close>

lemma closes_Rept: "closes (Rept p lo hi # r) = closes r"
  by simp

lemma matchHere_captures:
  "matchHere fl its s i os cs = Some (e, cs') \<Longrightarrow> length cs' = length cs + closes its"
proof (induction fl its s i os cs rule: matchHere.induct)
  case (4 fl p lo hi r s i os cs)
  from matchHere_Rept_cases [OF 4(4)] show ?case
  proof (elim disjE conjE)
    assume "hi = Some 0" "matchHere fl r s i os cs = Some (e, cs')"
    with 4(1) show ?thesis by simp
  next
    assume "hi \<noteq> Some 0" "i < length s" "p (s ! i)"
      "matchHere fl (Rept p (lo - 1) (decr hi) # r) s (i + 1) os cs = Some (e, cs')"
    with 4(2) show ?thesis by simp
  next
    assume a: "hi \<noteq> Some 0" "lo = 0" "matchHere fl r s i os cs = Some (e, cs')"
      "i < length s \<and> p (s ! i) \<longrightarrow>
         matchHere fl (Rept p (lo - 1) (decr hi) # r) s (i + 1) os cs = None"
    then have "(if i < length s \<and> p (s ! i)
        then matchHere fl (Rept p (lo - 1) (decr hi) # r) s (i + 1) os cs else None) = None"
      by simp
    from 4(3) [OF a(1) refl _ this a(3)] a(2) show ?thesis by simp
  qed
qed (auto split: if_splits list.splits)

lemma regexExec_captures:
  "regexExec re s i = Some (b, e, cs) \<Longrightarrow> length cs = closes (items re)"
proof (induction re s i rule: regexExec.induct)
  case (1 re s i)
  from 1(2) have le: "i \<le> length s"
    by (subst (asm) regexExec.simps) (simp split: if_splits)
  show ?case
  proof (cases "matchHere (mode re) (items re) s i [] []")
    case None
    with 1(2) le have "regexExec re s (i + 1) = Some (b, e, cs)"
      by (subst (asm) regexExec.simps) simp
    with 1(1) [OF _ None] le show ?thesis by simp
  next
    case (Some z)
    with 1(2) le have "z = (e, cs)"
      by (subst (asm) regexExec.simps) auto
    with Some matchHere_captures [of "mode re" "items re" s i "[]" "[]" e cs]
    show ?thesis by simp
  qed
qed

lemma two_captures: "length cs = 2 \<Longrightarrow> \<exists>a raw. cs = [a, raw]"
  by (cases cs; cases "tl cs") auto

lemma winRegex_captures:
  "regexExec winRegex s i = Some (b, e, cs) \<Longrightarrow> \<exists>a raw. cs = [a, raw]"
  by (rule two_captures) (simp add: regexExec_captures winRegex_def ipGroup_def)

lemma unixRegex_captures:
  "regexExec unixRegex s i = Some (b, e, cs) \<Longrightarrow> \<exists>a raw. cs = [a, raw]"
  by (rule two_captures) (simp add: regexExec_captures unixRegex_def ipGroup_def lits_def js_def)

lemma winLoop_None: "regexExec winRegex s i = None \<Longrightarrow> winLoop s i m = m"
  by (simp add: winLoop.simps [of s i])

lemma winLoop_Some:
  "regexExec winRegex s i = Some (b, e, [a, raw]) \<Longrightarrow>
   winLoop s i m = winLoop s e (put m a (toUpperCase (hyphensToColons raw)))"
  by (simp add: winLoop.simps [of s i] put_def Let_def)

lemma unixLoop_None: "regexExec unixRegex s i = None \<Longrightarrow> unixLoop s i m = m"
  by (simp add: unixLoop.simps [of s i])

lemma unixLoop_Some:
  "regexExec unixRegex s i = Some (b, e, [a, raw]) \<Longrightarrow>
   unixLoop s i m = unixLoop s e (put m a (toUpperCase raw))"
  by (simp add: unixLoop.simps [of s i] put_def Let_def)

text \<open>
  An invariant of the map that every write keeps is kept by both loops, and so holds of
  the parsed map.
\<close>

lemma winLoop_invariant:
  assumes "\<And>m a v. P m \<Longrightarrow> v \<noteq> zeroMac \<Longrightarrow> P (Map_set m a v)"
  shows "P m \<Longrightarrow> P (winLoop s i m)"
proof (induction "length s - i" arbitrary: i m rule: less_induct)
  case less
  show ?case
  proof (cases "regexExec winRegex s i")
    case None
    with less.prems show ?thesis by (simp add: winLoop_None)
  next
    case (Some z)
    obtain b e cs where z: "z = (b, e, cs)" by (cases z)
    from Some z winRegex_captures obtain a raw where cs: "cs = [a, raw]" by blast
    from Some z winRegex_progress have "length s - e < length s - i" by fastforce
    moreover have "P (put m a (toUpperCase (hyphensToColons raw)))"
      using less.prems assms by (simp add: put_def)
    ultimately have "P (winLoop s e (put m a (toUpperCase (hyphensToColons raw))))"
      by (rule less.hyps)
    with Some z cs show ?thesis by (simp add: winLoop_Some)
  qed
qed

lemma unixLoop_invariant:
  assumes "\<And>m a v. P m \<Longrightarrow> v \<noteq> zeroMac \<Longrightarrow> P (Map_set m a v)"
  shows "P m \<Longrightarrow> P (unixLoop s i m)"
proof (induction "length s - i" arbitrary: i m rule: less_induct)
  case less
  show ?case
  proof (cases "regexExec unixRegex s i")
    case None
    with less.prems show ?thesis by (simp add: unixLoop_None)
  next
    case (Some z)
    obtain b e cs where z: "z = (b, e, cs)" by (cases z)
    from Some z unixRegex_captures obtain a raw where cs: "cs = [a, raw]" by blast
    from Some z unixRegex_progress have "length s - e < length s - i" by fastforce
    moreover have "P (put m a (toUpperCase raw))"
      using less.prems assms by (simp add: put_def)
    ultimately have "P (unixLoop s e (put m a (toUpperCase raw)))"
      by (rule less.hyps)
    with Some z cs show ?thesis by (simp add: unixLoop_Some)
  qed
qed

lemma parseArpOutput_invariant:
  assumes "P []" and "\<And>m a v. P m \<Longrightarrow> v \<noteq> zeroMac \<Longrightarrow> P (Map_set m a v)"
  shows "P (parseArpOutput s)"
proof -
  have "P (winLoop s 0 [])"
    using assms(2) assms(1) by (rule winLoop_invariant [where P = P])
  with assms(2) have "P (unixLoop s 0 (winLoop s 0 []))"
    by (rule unixLoop_invariant [where P = P])
  then show ?thesis by (simp add: parseArpOutput_def)
qed

lemma Map_set_values: "snd ` set (Map_set m k v) \<subseteq> insert v (snd ` set m)"
  unfolding Map_set_def by (induction m) auto

lemma Map_set_distinct: "distinct (map fst m) \<Longrightarrow> distinct (map fst (Map_set m k v))"
  unfolding Map_set_def by (rule distinct_update)

lemma parseArpOutput_no_zero: "zeroMac \<notin> snd ` set (parseArpOutput s)"
proof (rule parseArpOutput_invariant [where P = "\<lambda>m. zeroMac \<notin> snd ` set m"])
  fix m :: arpMap and a v
  assume "zeroMac \<notin> snd ` set m" "v \<noteq> zeroMac"
  with Map_set_values [of m a v] show "zeroMac \<notin> snd ` set (Map_set m a v)" by auto
qed simp

lemma parseArpOutput_distinct: "distinct (map fst (parseArpOutput s))"
  by (rule parseArpOutput_invariant [where P = "\<lambda>m. distinct (map fst m)"])
     (simp_all add: Map_set_distinct)

section \<open>Evaluation on concrete inputs\<close>

lemmas class_defs = isSpace_def isDigit_def isHexDigit_def isLineTerminator_def
  isWinMacChar_def isUnixMacChar_def upperChar_def

lemmas regex_eval = regexExec.simps matchHere_Rept rangeLoop.simps lits_def js_def plain_def
  class_defs Let_def

lemmas parse_eval = parseArpOutput_def unixLoop.simps winLoop.simps winRegex_def unixRegex_def
  ipGroup_def toUpperCase_def hyphensToColons_def zeroMac_def Map_set_def regex_eval




text \<open>What the second loop writes replaces what the map held for the same address.\<close>

lemma map_of_put:
  "map_of (put m a v) k = (if v \<noteq> zeroMac \<and> k = a then Some v else map_of m k)"
  by (simp add: put_def Map_set_def update_conv')

lemma unixLoop_overrides:
  "map_of (unixLoop s i m) k =
     (case map_of (unixLoop s i []) k of Some v \<Rightarrow> Some v | None \<Rightarrow> map_of m k)"
proof (induction "length s - i" arbitrary: i m rule: less_induct)
  case less
  show ?case
  proof (cases "regexExec unixRegex s i")
    case None
    then show ?thesis by (simp add: unixLoop_None)
  next
    case (Some z)
    obtain b e cs where z: "z = (b, e, cs)" by (cases z)
    from Some z unixRegex_captures obtain a raw where cs: "cs = [a, raw]" by blast
    from Some z unixRegex_progress have dec: "length s - e < length s - i" by fastforce
    define v where "v = toUpperCase raw"
    have step: "unixLoop s i m' = unixLoop s e (put m' a v)" for m'
      using Some z cs by (simp add: unixLoop_Some v_def)
    have 1: "map_of (unixLoop s e (put m a v)) k =
        (case map_of (unixLoop s e []) k of Some x \<Rightarrow> Some x | None \<Rightarrow> map_of (put m a v) k)"
      using dec by (rule less.hyps)
    have 2: "map_of (unixLoop s e (put [] a v)) k =
        (case map_of (unixLoop s e []) k of Some x \<Rightarrow> Some x | None \<Rightarrow> map_of (put [] a v) k)"
      using dec by (rule less.hyps)
    show ?thesis
      by (simp add: step [of m] step [of "[]"] 1 2 map_of_put split: option.splits)
  qed
qed

lemma parseArpOutput_last_writer:
  "map_of (parseArpOutput s) k =
     (case map_of (unixLoop s 0 []) k of Some v \<Rightarrow> Some v | None \<Rightarrow> map_of (winLoop s 0 []) k)"
  unfolding parseArpOutput_def by (rule unixLoop_overrides)

lemma parseArpOutput_unparseable:
  "regexExec winRegex s 0 = None \<Longrightarrow> regexExec unixRegex s 0 = None \<Longrightarrow> parseArpOutput s = []"
  by (simp add: parseArpOutput_def winLoop_None unixLoop_None)

lemma parse_both_patterns:
  "parseArpOutput (js ''10.0.0.7 aa-bb-cc-dd-ee-ff\<newline>10.0.0.7 ether 11:22:33:44:55:66'') =
     [(js ''10.0.0.7'', js ''11:22:33:44:55:66'')]"
  by (simp add: parse_eval)

lemma win_both_patterns:
  "winLoop (js ''10.0.0.7 aa-bb-cc-dd-ee-ff\<newline>10.0.0.7 ether 11:22:33:44:55:66'') 0 [] =
     [(js ''10.0.0.7'', js ''AA:BB:CC:DD:EE:FF'')]"
  by (simp add: parse_eval)

lemma no_match_in_prose:
  "regexExec winRegex (js ''arp: command output'') 0 = None"
  "regexExec unixRegex (js ''arp: command output'') 0 = None"
  by (simp_all add: parse_eval)

section \<open>Properties of the name resolution\<close>

text \<open>
  \<open>getDeviceName\<close> never returns the empty string: a name it finds is not empty, and
  otherwise it returns \<open>"Unknown"\<close>. So the first operand of the chain of \<open>||\<close> is always
  taken, and the chain is \<open>getDeviceName\<close> alone.
\<close>

lemma getDeviceName_nonempty: "fst (getDeviceName w a) \<noteq> []"
  by (auto simp: getDeviceName_def leaseName_def upnpName_def Unknown_def js_def
           split: option.splits list.splits prod.splits if_splits)

lemma resolveName_getDeviceName: "resolveName w a = getDeviceName w a"
  by (simp add: resolveName_def orElse_def getDeviceName_nonempty)

lemma dnsWorld_reverse:
  "fst (resolveDnsName dnsWorld (js ''192.168.1.10'')) = js ''host.example.com''"
  by (simp add: resolveDnsName_def dnsWorld_def quietWorld_def replaceFirst_def trailingDot_def
        regex_eval)

lemma dnsWorld_chain:
  "resolveName dnsWorld (js ''192.168.1.10'') =
     (js ''Unknown'', [ReadTextFile leasesPath, Fetch (upnpUrl (js ''192.168.1.10''))])"
  by (simp add: resolveName_getDeviceName getDeviceName_def leaseName_def upnpName_def
        dnsWorld_def quietWorld_def Unknown_def)

lemma trim_Unknown: "trim (replaceAll spaces Unknown [32]) = Unknown"
  by (simp add: trim_def replaceAll_def spaces_def Unknown_def regex_eval)

section \<open>Properties of the vendor lookup\<close>

text \<open>\<open>mac.replace(/:/g, "")\<close> removes the colons and nothing else.\<close>

lemma matchHere_colon:
  "matchHere plain [Lit 58] s i [] [] = (if i < length s \<and> s ! i = 58 then Some (i + 1, []) else None)"
  by (simp add: plain_def)

lemma regexExec_colons_Some:
  "regexExec colons s i = Some (b, e, cs) \<Longrightarrow>
     i \<le> b \<and> b < length s \<and> s ! b = 58 \<and> e = b + 1 \<and> (\<forall>k. i \<le> k \<and> k < b \<longrightarrow> s ! k \<noteq> 58)"
proof (induction colons s i rule: regexExec.induct)
  case (1 s i)
  from 1(2) have le: "i \<le> length s"
    by (subst (asm) regexExec.simps) (simp split: if_splits)
  show ?case
  proof (cases "i < length s \<and> s ! i = 58")
    case True
    with 1(2) le show ?thesis
      by (subst (asm) regexExec.simps) (simp add: colons_def plain_def)
  next
    case False
    then have none: "matchHere (mode colons) (items colons) s i [] [] = None"
      by (simp add: colons_def plain_def)
    with 1(2) le have "regexExec colons s (i + 1) = Some (b, e, cs)"
      by (subst (asm) regexExec.simps) simp
    with 1(1) [OF _ none] le have
      "i + 1 \<le> b \<and> b < length s \<and> s ! b = 58 \<and> e = b + 1 \<and> (\<forall>k. i + 1 \<le> k \<and> k < b \<longrightarrow> s ! k \<noteq> 58)"
      by simp
    then have r: "i + 1 \<le> b" "b < length s" "s ! b = 58" "e = b + 1"
      and later: "\<And>k. i + 1 \<le> k \<Longrightarrow> k < b \<Longrightarrow> s ! k \<noteq> 58"
      by auto
    have "s ! k \<noteq> 58" if "i \<le> k" "k < b" for k
    proof (cases "k = i")
      case True
      with False r(2) that(2) show ?thesis by simp
    next
      case neq: False
      with that(1) have "i + 1 \<le> k" by simp
      then show ?thesis using that(2) by (rule later)
    qed
    with r show ?thesis by simp
  qed
qed

lemma regexExec_colons_None:
  "regexExec colons s i = None \<Longrightarrow> i \<le> k \<Longrightarrow> k < length s \<Longrightarrow> s ! k \<noteq> 58"
proof (induction colons s i rule: regexExec.induct)
  case (1 s i)
  from 1(3,4) have le: "\<not> length s < i" by simp
  show ?case
  proof (cases "i < length s \<and> s ! i = 58")
    case True
    with 1(2) le show ?thesis
      by (subst (asm) regexExec.simps) (simp add: colons_def plain_def)
  next
    case False
    then have none: "matchHere (mode colons) (items colons) s i [] [] = None"
      by (simp add: colons_def plain_def)
    with 1(2) le have next_none: "regexExec colons s (i + 1) = None"
      by (subst (asm) regexExec.simps) simp
    show ?thesis
    proof (cases "k = i")
      case True
      with False 1(4) show ?thesis by simp
    next
      case neq: False
      with 1(3) have "i + 1 \<le> k" by simp
      with 1(1) [OF le none next_none _ 1(4)] show ?thesis by simp
    qed
  qed
qed

lemma filter_no_colon:
  "(\<And>k. k < length xs \<Longrightarrow> xs ! k \<noteq> 58) \<Longrightarrow> filter (\<lambda>c. c \<noteq> (58::nat)) xs = xs"
  by (auto simp: filter_id_conv in_set_conv_nth)

lemma strip_colons_from:
  "pos \<le> length s \<Longrightarrow>
   splice s pos (rangeLoop colons s pos) [] = filter (\<lambda>c. c \<noteq> 58) (drop pos s)"
proof (induction "length s - pos" arbitrary: pos rule: less_induct)
  case less
  show ?case
  proof (cases "regexExec colons s pos")
    case None
    have "filter (\<lambda>c. c \<noteq> 58) (drop pos s) = drop pos s"
    proof (rule filter_no_colon)
      fix k assume "k < length (drop pos s)"
      then show "drop pos s ! k \<noteq> 58"
        using regexExec_colons_None [OF None, of "pos + k"] less.prems by simp
    qed
    with None show ?thesis by (simp add: rangeLoop.simps [of colons s pos])
  next
    case (Some z)
    obtain b e cs where z: "z = (b, e, cs)" by (cases z)
    from regexExec_colons_Some [OF Some [unfolded z]]
    have b: "pos \<le> b" "b < length s" "s ! b = 58" "e = b + 1"
      and clean: "\<And>k. pos \<le> k \<Longrightarrow> k < b \<Longrightarrow> s ! k \<noteq> 58"
      by auto
    have loop: "rangeLoop colons s pos = (b, b + 1) # rangeLoop colons s (b + 1)"
      using Some z b(4) by (simp add: rangeLoop.simps [of colons s pos])
    have IH: "splice s (b + 1) (rangeLoop colons s (b + 1)) [] =
        filter (\<lambda>c. c \<noteq> 58) (drop (b + 1) s)"
      using b less.prems by (intro less.hyps) auto
    have split: "drop pos s = take (b - pos) (drop pos s) @ s ! b # drop (b + 1) s"
      using id_take_nth_drop [of "b - pos" "drop pos s"] b(1,2) by (simp add: add.commute)
    have head: "filter (\<lambda>c. c \<noteq> 58) (take (b - pos) (drop pos s)) = take (b - pos) (drop pos s)"
    proof (rule filter_no_colon)
      fix k assume "k < length (take (b - pos) (drop pos s))"
      then show "take (b - pos) (drop pos s) ! k \<noteq> 58"
        using clean [of "pos + k"] b(1,2) by simp
    qed
    have "filter (\<lambda>c. c \<noteq> 58) (drop pos s) =
        take (b - pos) (drop pos s) @ filter (\<lambda>c. c \<noteq> 58) (drop (b + 1) s)"
      by (subst split) (simp add: head b(3) del: drop_Suc)
    with loop IH show ?thesis by simp
  qed
qed

lemma replaceAll_colons: "replaceAll colons s [] = filter (\<lambda>c. c \<noteq> 58) s"
  using strip_colons_from [of 0 s] by (simp add: replaceAll_def)

lemma cleanMacOf_filter: "cleanMacOf m = toUpperCase (filter (\<lambda>c. c \<noteq> 58) m)"
  by (simp add: cleanMacOf_def replaceAll_colons)

lemma vendorOf_lookup:
  "vendorOf (Some table) hw =
     (case table (take 6 (toUpperCase (filter (\<lambda>c. c \<noteq> 58) hw))) of
        None \<Rightarrow> js ''Unknown''
      | Some org \<Rightarrow> if org = [] then js ''Unknown'' else org)"
  by (simp add: vendorOf_def cleanMacOf_filter Unknown_def Let_def split: option.splits)

lemma oui_of_example:
  "take 6 (toUpperCase (filter (\<lambda>c. c \<noteq> 58) (js ''AA:BB:CC:11:22:33''))) = js ''AABBCC''"
  "take 6 (toUpperCase (filter (\<lambda>c. c \<noteq> 58) (js ''FF:FF:FF:11:22:33''))) = js ''FFFFFF''"
  "js ''FFFFFF'' \<noteq> js ''AABBCC''"
  by (simp_all add: js_def toUpperCase_def upperChar_def)

section \<open>Properties of the scan\<close>

text \<open>The devices of a scan are the devices of its passes, in the order of the interfaces.\<close>

lemma enrichDevices_Nil [simp]: "enrichDevices w db [] n = []"
  by (simp add: enrichDevices_def)

lemma filterSubnetDevices_Nil [simp]: "filterSubnetDevices [] a n = []"
  by (simp add: filterSubnetDevices_def)

lemma scanLoop_passes:
  "fst (scanLoop w db options ifaces k results probes) =
     results @ concat (passes w db options ifaces k)"
proof (induction ifaces arbitrary: k results probes)
  case Nil
  then show ?case by simp
next
  case (Cons iface rest)
  show ?case
  proof (cases "selected options iface")
    case False
    then show ?thesis
      by (auto simp: selected_def Cons.IH split: option.splits)
  next
    case True
    then have sel: "\<not> (case interfaceFilter options of None \<Rightarrow> False
        | Some f \<Rightarrow> f \<noteq> [] \<and> ifname iface \<noteq> f)" "family iface = IPv4"
      by (simp_all add: selected_def)
    show ?thesis
    proof (cases "getArpCache w k = []")
      case empty: True
      with True sel show ?thesis
        by (simp add: Cons.IH passDevices_def Let_def)
    next
      case nonempty: False
      show ?thesis
      proof (cases "filterSubnetDevices (getArpCache w k) (address iface) (netmask iface) = []")
        case e: True
        with True sel nonempty show ?thesis
          by (simp add: Cons.IH passDevices_def Let_def)
      next
        case ne: False
        with True sel nonempty show ?thesis
          by (simp add: Cons.IH passDevices_def Let_def)
      qed
    qed
  qed
qed

lemma scan_devices:
  "fst (scan w st options) =
     (case networkInterfaces w of
        None \<Rightarrow> Inl InterfacesUnavailable
      | Some ifaces \<Rightarrow>
          Inr (concat (passes w
                 (Some (case ouiDatabase st of None \<Rightarrow> loadOuiDatabase w | Some t \<Rightarrow> t))
                 options ifaces 0)))"
  using scanLoop_passes [of w _ options _ 0 "[]" "[]"]
  by (simp add: scan_def Let_def case_prod_unfold split: option.splits)

lemma length_passes: "length (passes w db options ifaces k) = length ifaces"
  by (induction ifaces arbitrary: k) auto

lemma passDevices_interface: "d \<in> set (passDevices w db k iface) \<Longrightarrow> interface d = ifname iface"
  by (auto simp: passDevices_def enrichDevices_def Let_def)

lemma passes_block:
  "n < length ifaces \<Longrightarrow> d \<in> set (passes w db options ifaces k ! n) \<Longrightarrow>
     selected options (ifaces ! n) \<and> (\<exists>j. d \<in> set (passDevices w db j (ifaces ! n)))"
proof (induction ifaces arbitrary: k n)
  case Nil
  then show ?case by simp
next
  case (Cons iface rest)
  show ?case
  proof (cases n)
    case 0
    with Cons.prems show ?thesis by (auto split: if_splits)
  next
    case (Suc n')
    with Cons.prems Cons.IH [of n'] show ?thesis by (auto split: if_splits)
  qed
qed

text \<open>The pass over \<open>eth0\<close> in the example worlds.\<close>

lemma lanWorld_fields:
  "networkInterfaces (lanWorld c t) = Some [lanInterface]"
  "arpRun (lanWorld c t) k = Some \<lparr> code = c, stdout = js t \<rparr>"
  "ouiEntries (lanWorld c t) = None"
  "getArpCache (lanWorld c t) k = parseArpOutput (js t)"
  "loadOuiDatabase (lanWorld c t) = Map.empty"
  by (simp_all add: lanWorld_def quietWorld_def getArpCache_def loadOuiDatabase_def)

lemma lanWorld_name: "fst (resolveName (lanWorld c t) a) = Unknown"
  by (simp add: resolveName_getDeviceName getDeviceName_def leaseName_def upnpName_def
        lanWorld_def quietWorld_def)

lemma parse_lan_line:
  "parseArpOutput (js ''10.0.0.5 aa-bb-cc-dd-ee-ff'') = [(js ''10.0.0.5'', js ''AA:BB:CC:DD:EE:FF'')]"
  by (simp add: parse_eval)

lemma parse_odd_zero_line:
  "parseArpOutput (js ''10.0.0.5 000:00:00:00:00:0'') = [(js ''10.0.0.5'', js ''000:00:00:00:00:0'')]"
  by (simp add: parse_eval)

lemma filter_lan:
  "filterSubnetDevices [(js ''10.0.0.5'', hw)] (js ''10.0.0.1'') (js ''255.255.255.0'') =
     [(js ''10.0.0.5'', hw)]"
  by (simp add: filterSubnetDevices_filter ip_eval)

lemmas format_eval = formatMac_def matchAll_def pairRegex_def regex_eval

lemma format_examples:
  "formatMac (cleanMacOf (js ''AA:BB:CC:DD:EE:FF'')) = js ''AA:BB:CC:DD:EE:FF''"
  "formatMac (cleanMacOf (js ''000:00:00:00:00:0'')) = js ''00:00:00:00:00:00''"
  by (simp_all add: cleanMacOf_filter toUpperCase_def format_eval)

lemma vendorOf_empty: "vendorOf (Some Map.empty) hw = Unknown"
  by (simp add: vendorOf_lookup Unknown_def)

lemma pass_lan_line:
  "passDevices (lanWorld c ''10.0.0.5 aa-bb-cc-dd-ee-ff'') (Some Map.empty) 0 lanInterface =
     [\<lparr> ip = js ''10.0.0.5'', mac = js ''AA:BB:CC:DD:EE:FF'', interface = js ''eth0'',
        vendor = js ''Unknown'', name = js ''Unknown'' \<rparr>]"
  by (simp add: passDevices_def lanWorld_fields parse_lan_line lanInterface_def filter_lan
        enrichDevices_def lanWorld_name format_examples vendorOf_empty trim_Unknown Let_def)
     (simp add: Unknown_def)

lemma pass_odd_zero_line:
  "passDevices (lanWorld c ''10.0.0.5 000:00:00:00:00:0'') (Some Map.empty) 0 lanInterface =
     [\<lparr> ip = js ''10.0.0.5'', mac = js ''00:00:00:00:00:00'', interface = js ''eth0'',
        vendor = js ''Unknown'', name = js ''Unknown'' \<rparr>]"
  by (simp add: passDevices_def lanWorld_fields parse_odd_zero_line lanInterface_def filter_lan
        enrichDevices_def lanWorld_name format_examples vendorOf_empty trim_Unknown Let_def)
     (simp add: Unknown_def)

lemma scan_lanWorld:
  assumes "selected options lanInterface"
  shows "fst (scan (lanWorld c t) \<lparr> ouiDatabase = None \<rparr> options) =
     Inr (passDevices (lanWorld c t) (Some Map.empty) 0 lanInterface)"
  using assms by (simp add: scan_devices lanWorld_fields)

lemma selected_lan:
  "selected \<lparr> interfaceFilter = None, pingTimeout = None \<rparr> lanInterface"
  "selected \<lparr> interfaceFilter = Some [], pingTimeout = None \<rparr> lanInterface"
  "selected \<lparr> interfaceFilter = Some (js ''eth0''), pingTimeout = None \<rparr> lanInterface"
  by (simp_all add: selected_def lanInterface_def)

lemma selected_filter:
  "selected options iface \<Longrightarrow> interfaceFilter options = Some f \<Longrightarrow> f \<noteq> [] \<Longrightarrow> ifname iface = f"
  by (simp add: selected_def)

lemma selected_IPv4: "selected options iface \<Longrightarrow> family iface = IPv4"
  by (simp add: selected_def)

lemma passes_empty:
  "(\<And>iface j. iface \<in> set ifaces \<Longrightarrow> selected options iface \<Longrightarrow> passDevices w db j iface = []) \<Longrightarrow>
   concat (passes w db options ifaces k) = []"
  by (induction ifaces arbitrary: k) auto

lemma passDevices_no_cache: "getArpCache w k = [] \<Longrightarrow> passDevices w db k iface = []"
  by (simp add: passDevices_def)

lemma scan_lan_line:
  assumes "selected options lanInterface"
  shows "fst (scan (lanWorld c ''10.0.0.5 aa-bb-cc-dd-ee-ff'') \<lparr> ouiDatabase = None \<rparr> options) =
     Inr [\<lparr> ip = js ''10.0.0.5'', mac = js ''AA:BB:CC:DD:EE:FF'', interface = js ''eth0'',
            vendor = js ''Unknown'', name = js ''Unknown'' \<rparr>]"
  by (simp only: scan_lanWorld [OF assms] pass_lan_line)

lemma scan_returns:
  "networkInterfaces w = Some ifaces \<Longrightarrow> \<exists>devices. fst (scan w st options) = Inr devices"
  by (simp add: scan_devices)

lemma scan_empty:
  assumes "networkInterfaces w = Some ifaces"
    and "\<And>iface j db. iface \<in> set ifaces \<Longrightarrow> selected options iface \<Longrightarrow> passDevices w db j iface = []"
  shows "fst (scan w st options) = Inr []"
  using assms(1) passes_empty [of ifaces options w _ 0, OF assms(2)]
  by (simp add: scan_devices)

text \<open>
  The passes by position: the pass of the interface at position \<open>n\<close> reads the run of
  \<open>arp\<close> numbered by the scanned interfaces before it. The exit code of a run plays no
  part in the result.
\<close>

lemma passes_nth:
  "n < length ifaces \<Longrightarrow>
   passes w db options ifaces k ! n =
     (if selected options (ifaces ! n)
      then passDevices w db (k + length (filter (selected options) (take n ifaces))) (ifaces ! n)
      else [])"
proof (induction ifaces arbitrary: k n)
  case Nil
  then show ?case by simp
next
  case (Cons iface rest)
  show ?case
  proof (cases n)
    case 0
    then show ?thesis by simp
  next
    case (Suc n')
    with Cons.prems have "n' < length rest" by simp
    from Cons.IH [OF this] Suc show ?thesis by simp
  qed
qed

lemma passes_by_index:
  "passes w db options ifaces 0 =
     map (\<lambda>n. if selected options (ifaces ! n)
               then passDevices w db (length (filter (selected options) (take n ifaces))) (ifaces ! n)
               else [])
         [0..<length ifaces]"
proof -
  have "passes w db options ifaces 0 =
      map (\<lambda>n. passes w db options ifaces 0 ! n) [0..<length (passes w db options ifaces 0)]"
    by (simp only: map_nth)
  also have "\<dots> = map (\<lambda>n. if selected options (ifaces ! n)
               then passDevices w db (length (filter (selected options) (take n ifaces))) (ifaces ! n)
               else [])
         [0..<length ifaces]"
    by (rule map_cong) (simp_all add: length_passes passes_nth)
  finally show ?thesis .
qed

lemma leaseName_arpRun: "leaseName (w\<lparr> arpRun := r \<rparr>) a = leaseName w a"
  by (simp add: leaseName_def)

lemma upnpName_arpRun: "upnpName (w\<lparr> arpRun := r \<rparr>) a = upnpName w a"
  by (simp add: upnpName_def)

lemma resolveName_arpRun: "resolveName (w\<lparr> arpRun := r \<rparr>) a = resolveName w a"
  by (simp add: resolveName_getDeviceName getDeviceName_def leaseName_arpRun upnpName_arpRun
        split: option.splits)

lemma enrichDevices_arpRun:
  "enrichDevices (w\<lparr> arpRun := r \<rparr>) db devices nm = enrichDevices w db devices nm"
  by (simp add: enrichDevices_def resolveName_arpRun)

lemma getArpCache_code:
  "getArpCache (w\<lparr> arpRun := (\<lambda>k. map_option (\<lambda>out. out\<lparr> code := c k \<rparr>) (arpRun w k)) \<rparr>) k =
     getArpCache w k"
  by (cases "arpRun w k") (simp_all add: getArpCache_def)

lemma passes_code:
  "passes (w\<lparr> arpRun := (\<lambda>k. map_option (\<lambda>out. out\<lparr> code := c k \<rparr>) (arpRun w k)) \<rparr>) db options ifaces k =
     passes w db options ifaces k"
  by (induction ifaces arbitrary: k)
     (simp_all add: passDevices_def enrichDevices_arpRun getArpCache_code)

lemma scan_code:
  "fst (scan (w\<lparr> arpRun := (\<lambda>k. map_option (\<lambda>out. out\<lparr> code := c k \<rparr>) (arpRun w k)) \<rparr>) st options) =
     fst (scan w st options)"
  by (simp add: scan_devices passes_code loadOuiDatabase_def split: option.splits)

lemma parse_lan1_line:
  "parseArpOutput (js ''10.0.1.5 aa-bb-cc-dd-ee-ff'') = [(js ''10.0.1.5'', js ''AA:BB:CC:DD:EE:FF'')]"
  by (simp add: parse_eval)

lemma filter_lan1:
  "filterSubnetDevices [(js ''10.0.1.5'', hw)] (js ''10.0.1.1'') (js ''255.255.255.0'') =
     [(js ''10.0.1.5'', hw)]"
  by (simp add: filterSubnetDevices_filter ip_eval)

lemma twoLanWorld_name: "fst (resolveName twoLanWorld a) = Unknown"
  by (simp add: resolveName_getDeviceName getDeviceName_def leaseName_def upnpName_def
        twoLanWorld_def quietWorld_def)

lemma twoLanWorld_fields:
  "networkInterfaces twoLanWorld = Some [lanInterface, lanInterface1]"
  "ouiEntries twoLanWorld = None"
  "arpRun twoLanWorld 0 = None"
  "arpRun twoLanWorld (Suc 0) = Some \<lparr> code = 0, stdout = js ''10.0.1.5 aa-bb-cc-dd-ee-ff'' \<rparr>"
  "loadOuiDatabase twoLanWorld = Map.empty"
  by (simp_all add: twoLanWorld_def quietWorld_def loadOuiDatabase_def)

lemma selected_twoLan:
  "selected \<lparr> interfaceFilter = None, pingTimeout = None \<rparr> lanInterface"
  "selected \<lparr> interfaceFilter = None, pingTimeout = None \<rparr> lanInterface1"
  by (simp_all add: selected_def lanInterface_def lanInterface1_def)

lemma enrich_twoLan:
  "enrichDevices twoLanWorld (Some Map.empty)
     (filterSubnetDevices (parseArpOutput (js ''10.0.1.5 aa-bb-cc-dd-ee-ff''))
        (js ''10.0.1.1'') (js ''255.255.255.0'')) (js ''eth1'') =
   [\<lparr> ip = js ''10.0.1.5'', mac = js ''AA:BB:CC:DD:EE:FF'', interface = js ''eth1'',
      vendor = js ''Unknown'', name = js ''Unknown'' \<rparr>]"
  by (simp add: parse_lan1_line filter_lan1
        enrichDevices_def twoLanWorld_name format_examples vendorOf_empty trim_Unknown Let_def)
     (simp add: Unknown_def)

section \<open>Properties of the hardware address of a device\<close>

text \<open>
  \<open>formatMac\<close> cuts its argument into pairs of characters and joins them with colons.
  On the twelve digits of a well-formed address this gives the address back.
\<close>

lemma upperHex_facts:
  "isUpperHexDigit c \<Longrightarrow> (c = 58) = False"
  "isUpperHexDigit c \<Longrightarrow> upperChar c = c"
  "isUpperHexDigit c \<Longrightarrow> isLineTerminator c = False"
  by (auto simp: isUpperHexDigit_def isDigit_def upperChar_def isLineTerminator_def)

lemma octetGroups_one:
  "octetGroups (Suc 0) m \<Longrightarrow> \<exists>a b. m = [a, b] \<and> isUpperHexDigit a \<and> isUpperHexDigit b"
  by (cases "(Suc 0, m)" rule: octetGroups.cases) auto

lemma octetGroups_more:
  "octetGroups (Suc (Suc n)) m \<Longrightarrow>
     \<exists>a b rest. m = a # b # 58 # rest \<and> isUpperHexDigit a \<and> isUpperHexDigit b \<and> octetGroups (Suc n) rest"
  by (cases "(Suc (Suc n), m)" rule: octetGroups.cases) auto

lemma wellFormedMac_shape:
  assumes "wellFormedMac m"
  obtains a1 a2 b1 b2 c1 c2 d1 d2 e1 e2 f1 f2 where
    "m = [a1, a2, 58, b1, b2, 58, c1, c2, 58, d1, d2, 58, e1, e2, 58, f1, f2]"
    "isUpperHexDigit a1" "isUpperHexDigit a2" "isUpperHexDigit b1" "isUpperHexDigit b2"
    "isUpperHexDigit c1" "isUpperHexDigit c2" "isUpperHexDigit d1" "isUpperHexDigit d2"
    "isUpperHexDigit e1" "isUpperHexDigit e2" "isUpperHexDigit f1" "isUpperHexDigit f2"
proof -
  from assms have g6: "octetGroups (Suc (Suc (Suc (Suc (Suc (Suc 0)))))) m"
    by (simp add: wellFormedMac_def eval_nat_numeral)
  from octetGroups_more [OF g6] obtain a1 a2 r1 where
    1: "m = a1 # a2 # 58 # r1" "isUpperHexDigit a1" "isUpperHexDigit a2"
       "octetGroups (Suc (Suc (Suc (Suc (Suc 0))))) r1" by blast
  from octetGroups_more [OF 1(4)] obtain b1 b2 r2 where
    2: "r1 = b1 # b2 # 58 # r2" "isUpperHexDigit b1" "isUpperHexDigit b2"
       "octetGroups (Suc (Suc (Suc (Suc 0)))) r2" by blast
  from octetGroups_more [OF 2(4)] obtain c1 c2 r3 where
    3: "r2 = c1 # c2 # 58 # r3" "isUpperHexDigit c1" "isUpperHexDigit c2"
       "octetGroups (Suc (Suc (Suc 0))) r3" by blast
  from octetGroups_more [OF 3(4)] obtain d1 d2 r4 where
    4: "r3 = d1 # d2 # 58 # r4" "isUpperHexDigit d1" "isUpperHexDigit d2"
       "octetGroups (Suc (Suc 0)) r4" by blast
  from octetGroups_more [OF 4(4)] obtain e1 e2 r5 where
    5: "r4 = e1 # e2 # 58 # r5" "isUpperHexDigit e1" "isUpperHexDigit e2"
       "octetGroups (Suc 0) r5" by blast
  from octetGroups_one [OF 5(4)] obtain f1 f2 where
    6: "r5 = [f1, f2]" "isUpperHexDigit f1" "isUpperHexDigit f2" by blast
  show thesis
    by (rule that [of a1 a2 b1 b2 c1 c2 d1 d2 e1 e2 f1 f2])
       (simp_all add: 1(1-3) 2(1-3) 3(1-3) 4(1-3) 5(1-3) 6)
qed

lemma pair_exec:
  assumes "i < length s" "\<not> isLineTerminator (s ! i)"
  shows "regexExec pairRegex s i =
     Some (i, if i + 1 < length s \<and> \<not> isLineTerminator (s ! (i + 1)) then i + 2 else i + 1, [])"
  using assms
  by (subst regexExec.simps) (simp add: pairRegex_def plain_def matchHere_Rept Let_def)

lemma pair_none: "regexExec pairRegex s (length s) = None"
  by (subst regexExec.simps, subst regexExec.simps)
     (simp add: pairRegex_def plain_def matchHere_Rept Let_def)

lemma formatMac_wellFormed:
  assumes "wellFormedMac m"
  shows "formatMac (cleanMacOf m) = m"
proof (rule wellFormedMac_shape [OF assms])
  fix a1 a2 b1 b2 c1 c2 d1 d2 e1 e2 f1 f2
  assume m: "m = [a1, a2, 58, b1, b2, 58, c1, c2, 58, d1, d2, 58, e1, e2, 58, f1, f2]"
    and h: "isUpperHexDigit a1" "isUpperHexDigit a2" "isUpperHexDigit b1" "isUpperHexDigit b2"
    "isUpperHexDigit c1" "isUpperHexDigit c2" "isUpperHexDigit d1" "isUpperHexDigit d2"
    "isUpperHexDigit e1" "isUpperHexDigit e2" "isUpperHexDigit f1" "isUpperHexDigit f2"
  define s where "s = [a1, a2, b1, b2, c1, c2, d1, d2, e1, e2, f1, f2]"
  have clean: "cleanMacOf m = s"
    using h by (simp add: m s_def cleanMacOf_filter toUpperCase_def upperHex_facts)
  have len: "length s = 12" by (simp add: s_def)
  have nth: "s ! 0 = a1" "s ! 1 = a2" "s ! 2 = b1" "s ! 3 = b2" "s ! 4 = c1" "s ! 5 = c2"
    "s ! 6 = d1" "s ! 7 = d2" "s ! 8 = e1" "s ! 9 = e2" "s ! 10 = f1" "s ! 11 = f2"
    by (simp_all add: s_def)
  have r12: "rangeLoop pairRegex s 12 = []"
    using pair_none [of s] by (subst rangeLoop.simps) (simp add: len)
  have r10: "rangeLoop pairRegex s 10 = [(10, 12)]"
    using pair_exec [of 10 s] h by (subst rangeLoop.simps) (simp add: len nth upperHex_facts r12)
  have r8: "rangeLoop pairRegex s 8 = [(8, 10), (10, 12)]"
    using pair_exec [of 8 s] h by (subst rangeLoop.simps) (simp add: len nth upperHex_facts r10)
  have r6: "rangeLoop pairRegex s 6 = [(6, 8), (8, 10), (10, 12)]"
    using pair_exec [of 6 s] h by (subst rangeLoop.simps) (simp add: len nth upperHex_facts r8)
  have r4: "rangeLoop pairRegex s 4 = [(4, 6), (6, 8), (8, 10), (10, 12)]"
    using pair_exec [of 4 s] h by (subst rangeLoop.simps) (simp add: len nth upperHex_facts r6)
  have r2: "rangeLoop pairRegex s 2 = [(2, 4), (4, 6), (6, 8), (8, 10), (10, 12)]"
    using pair_exec [of 2 s] h by (subst rangeLoop.simps) (simp add: len nth upperHex_facts r4)
  have r0: "rangeLoop pairRegex s 0 = [(0, 2), (2, 4), (4, 6), (6, 8), (8, 10), (10, 12)]"
  proof -
    have nth1: "s ! Suc 0 = a2" by (simp add: s_def)
    have r2': "rangeLoop pairRegex s (Suc (Suc 0)) = [(2, 4), (4, 6), (6, 8), (8, 10), (10, 12)]"
      using r2 by (simp only: numeral_2_eq_2)
    show ?thesis
      using pair_exec [of 0 s] h
      by (subst rangeLoop.simps) (simp add: len nth nth1 upperHex_facts r2')
  qed
  have "matchAll pairRegex s = [[a1, a2], [b1, b2], [c1, c2], [d1, d2], [e1, e2], [f1, f2]]"
    by (simp add: matchAll_def r0) (simp add: s_def)
  then have "formatMac s = m"
    by (simp add: formatMac_def m)
  then show "formatMac (cleanMacOf m) = m"
    by (simp only: clean)
qed

lemma getArpCache_no_zero: "(a, hw) \<in> set (getArpCache w k) \<Longrightarrow> hw \<noteq> zeroMac"
proof (cases "arpRun w k")
  case None
  assume "(a, hw) \<in> set (getArpCache w k)"
  with None show ?thesis by (simp add: getArpCache_def)
next
  case (Some out)
  assume "(a, hw) \<in> set (getArpCache w k)"
  with Some have "hw \<in> snd ` set (parseArpOutput (stdout out))"
    by (force simp: getArpCache_def)
  with parseArpOutput_no_zero [of "stdout out"] show ?thesis by blast
qed

lemma passDevices_entry:
  assumes "d \<in> set (passDevices w db k iface)"
  shows "\<exists>hw. (ip d, hw) \<in> set (getArpCache w k) \<and>
     ipToNumber (ip d) AND ipToNumber (netmask iface) =
       ipToNumber (address iface) AND ipToNumber (netmask iface) \<and>
     interface d = ifname iface \<and> mac d = formatMac (cleanMacOf hw)"
  using assms
  by (auto simp: passDevices_def enrichDevices_def filterSubnetDevices_filter Let_def)

lemma wellFormed_example: "wellFormedMac (js ''AA:BB:CC:DD:EE:FF'')"
  by (simp add: wellFormedMac_def js_def eval_nat_numeral isUpperHexDigit_def isDigit_def)

lemma malformed_example: "\<not> wellFormedMac (js ''00:00:00:00:0'')"
  by (simp add: wellFormedMac_def js_def eval_nat_numeral isUpperHexDigit_def isDigit_def)

lemma parse_short_groups_line:
  "parseArpOutput (js ''10.0.0.5 0:0:0:0:0:0:0:0:0'') = [(js ''10.0.0.5'', js ''0:0:0:0:0:0:0:0:0'')]"
  by (simp add: parse_eval)

lemma format_short_groups:
  "formatMac (cleanMacOf (js ''0:0:0:0:0:0:0:0:0'')) = js ''00:00:00:00:0''"
  by (simp add: cleanMacOf_filter toUpperCase_def format_eval)

lemma pass_short_groups_line:
  "passDevices (lanWorld c ''10.0.0.5 0:0:0:0:0:0:0:0:0'') (Some Map.empty) 0 lanInterface =
     [\<lparr> ip = js ''10.0.0.5'', mac = js ''00:00:00:00:0'', interface = js ''eth0'',
        vendor = js ''Unknown'', name = js ''Unknown'' \<rparr>]"
  by (simp add: passDevices_def lanWorld_fields parse_short_groups_line lanInterface_def filter_lan
        enrichDevices_def lanWorld_name format_short_groups vendorOf_empty trim_Unknown Let_def)
     (simp add: Unknown_def)

section \<open>The claims\<close>

text \<open>
  C1. The chain of name resolution is meant to try the lease file, the UPnP
  description, multicast DNS, NetBIOS and reverse DNS in this order and to stop at the
  first success. In the world where the lease file cannot be read, the UPnP request
  fails and the reverse lookup answers \<open>host.example.com.\<close>, the reverse-DNS method by
  itself returns \<open>host.example.com\<close>, but the chain returns \<open>Unknown\<close> after the calls of
  \<open>getDeviceName\<close> only, and the device is named \<open>Unknown\<close>: the string \<open>"Unknown"\<close> that
  \<open>getDeviceName\<close> returns on failure is not empty, so \<open>||\<close> never reaches a later
  method.
\<close>

theorem name_chain_stops_before_reverse_dns:
  "leaseName dnsWorld (js ''192.168.1.10'') = None \<and>
   upnpName dnsWorld (js ''192.168.1.10'') = None \<and>
   fst (resolveDnsName dnsWorld (js ''192.168.1.10'')) = js ''host.example.com'' \<and>
   resolveName dnsWorld (js ''192.168.1.10'') =
     (js ''Unknown'', [ReadTextFile leasesPath, Fetch (upnpUrl (js ''192.168.1.10''))]) \<and>
   map name (enrichDevices dnsWorld None [(js ''192.168.1.10'', js ''AA:BB:CC:DD:EE:FF'')]
               (js ''eth0'')) = [js ''Unknown'']"
proof (intro conjI)
  show "leaseName dnsWorld (js ''192.168.1.10'') = None"
    by (simp add: leaseName_def dnsWorld_def quietWorld_def)
  show "upnpName dnsWorld (js ''192.168.1.10'') = None"
    by (simp add: upnpName_def dnsWorld_def quietWorld_def)
  show "fst (resolveDnsName dnsWorld (js ''192.168.1.10'')) = js ''host.example.com''"
    by (rule dnsWorld_reverse)
  show "resolveName dnsWorld (js ''192.168.1.10'') =
     (js ''Unknown'', [ReadTextFile leasesPath, Fetch (upnpUrl (js ''192.168.1.10''))])"
    by (rule dnsWorld_chain)
  show "map name (enrichDevices dnsWorld None [(js ''192.168.1.10'', js ''AA:BB:CC:DD:EE:FF'')]
               (js ''eth0'')) = [js ''Unknown'']"
    using trim_Unknown by (simp add: enrichDevices_def dnsWorld_chain Unknown_def)
qed

text \<open>
  C3, as amended. For every interface address and every netmask in dotted-quad
  notation whose leading bit is set, the generator yields exactly the dotted-quad forms
  of the integers strictly between network (\<open>ip & mask\<close>) and broadcast
  (\<open>network | ~mask\<close>), in increasing order, and so neither the network nor the
  broadcast address. For a /24 it yields the 254 addresses with the hosts 1 to 254
  (for 192.168.1.0/24 from 192.168.1.1 to 192.168.1.254); for a /31 and a /32 it yields
  no address, which is a result like any other.
\<close>

theorem address_range_between_network_and_broadcast:
  assumes "a < 256" "b < 256" "c < 256" "d < 256"
    and "m1 < 256" "m2 < 256" "m3 < 256" "m4 < 256" and "128 \<le> m1"
  shows
    "(let network = quad32 a b c d AND quad32 m1 m2 m3 m4;
          broadcast = network OR NOT (quad32 m1 m2 m3 m4);
          yielded = calculateSubnet (dotted a b c d) (dotted m1 m2 m3 m4)
      in yielded = map dottedQuad [uint network + 1 .. uint broadcast - 1] \<and>
         dottedQuad (uint network) \<notin> set yielded \<and>
         dottedQuad (uint broadcast) \<notin> set yielded) \<and>
     calculateSubnet (dotted a b c d) (dotted 255 255 255 0) = map (dotted a b c) [1..<255] \<and>
     length (calculateSubnet (dotted a b c d) (dotted 255 255 255 0)) = 254 \<and>
     hd (calculateSubnet (dotted a b c d) (dotted 255 255 255 0)) = dotted a b c 1 \<and>
     last (calculateSubnet (dotted a b c d) (dotted 255 255 255 0)) = dotted a b c 254 \<and>
     calculateSubnet (dotted a b c d) (dotted 255 255 255 254) = [] \<and>
     calculateSubnet (dotted a b c d) (dotted 255 255 255 255) = []"
proof -
  have top: "bit (ipToNumber (dotted m1 m2 m3 m4)) 31"
    using assms by (simp add: ipToNumber_dotted bit31_quad32)
  have gen: "calculateSubnet (dotted a b c d) (dotted m1 m2 m3 m4) =
      map dottedQuad [uint (quad32 a b c d AND quad32 m1 m2 m3 m4) + 1 ..
        uint ((quad32 a b c d AND quad32 m1 m2 m3 m4) OR NOT (quad32 m1 m2 m3 m4)) - 1]"
    using calculateSubnet_unsigned [OF top, of "dotted a b c d"] assms
    by (simp add: ipToNumber_dotted)
  have s24: "calculateSubnet (dotted a b c d) (dotted 255 255 255 0) = map (dotted a b c) [1..<255]"
    using assms(1-4) by (rule calculateSubnet_24)
  show ?thesis
    unfolding Let_def
    by (intro conjI)
       (simp_all only: gen not_in_open_interval not_False_eq_True s24 calculateSubnet_31_32
          hd_map_upt last_map_upt length_map length_upt, simp_all)
qed

theorem address_range_between_network_and_broadcast_witness:
  "(192::nat) < 256 \<and> (168::nat) < 256 \<and> (1::nat) < 256 \<and> (0::nat) < 256 \<and> (255::nat) < 256 \<and>
   (128::nat) \<le> 255 \<and>
   length (calculateSubnet (js ''192.168.1.0'') (js ''255.255.255.0'')) = 254 \<and>
   hd (calculateSubnet (js ''192.168.1.0'') (js ''255.255.255.0'')) = js ''192.168.1.1'' \<and>
   last (calculateSubnet (js ''192.168.1.0'') (js ''255.255.255.0'')) = js ''192.168.1.254''"
proof -
  have h: "(192::nat) < 256" "(168::nat) < 256" "(1::nat) < 256" "(0::nat) < 256"
    "(255::nat) < 256" "(128::nat) \<le> 255"
    by simp_all
  note t = address_range_between_network_and_broadcast
    [OF h(1) h(2) h(3) h(4) h(5) h(5) h(5) h(4) h(6)]
  note len = t [THEN conjunct2, THEN conjunct2, THEN conjunct1]
  note first = t [THEN conjunct2, THEN conjunct2, THEN conjunct2, THEN conjunct1]
  note final = t [THEN conjunct2, THEN conjunct2, THEN conjunct2, THEN conjunct2, THEN conjunct1]
  from h len first final show ?thesis
    by (simp only: dotted_examples simp_thms)
qed

theorem address_range_counterexample:
  "length (calculateSubnet (js ''192.168.1.0'') (js ''255.255.255.0'')) \<noteq> 253 \<and>
   calculateSubnet (js ''10.0.0.1'') (js ''0.0.0.0'') = [] \<and>
   uint (ipToNumber (js ''10.0.0.1'') AND ipToNumber (js ''0.0.0.0'')) = 0 \<and>
   uint ((ipToNumber (js ''10.0.0.1'') AND ipToNumber (js ''0.0.0.0'')) OR
           NOT (ipToNumber (js ''0.0.0.0''))) = 4294967295"
  using subnet_slash0 by (simp add: subnet_192_168_1)


text \<open>
  C8. The parser is a total function: both of its loops terminate on every text, and
  it has no failing branch. A text in which neither pattern matches yields the empty
  map; the result has one entry per address; and an entry the second pattern writes
  replaces what the first pattern wrote for the same address, so the last writer wins;
  so it is for a text whose two lines give the same address in either layout.
\<close>

theorem parser_total_and_last_writer_wins:
  "(regexExec winRegex output 0 = None \<and> regexExec unixRegex output 0 = None
      \<longrightarrow> parseArpOutput output = []) \<and>
   distinct (map fst (parseArpOutput output)) \<and>
   map_of (parseArpOutput output) k =
     (case map_of (unixLoop output 0 []) k of
        Some v \<Rightarrow> Some v
      | None \<Rightarrow> map_of (winLoop output 0 []) k) \<and>
   parseArpOutput (js ''10.0.0.7 aa-bb-cc-dd-ee-ff\<newline>10.0.0.7 ether 11:22:33:44:55:66'') =
     [(js ''10.0.0.7'', js ''11:22:33:44:55:66'')]"
  using parseArpOutput_unparseable [of "output"] parseArpOutput_distinct [of "output"]
    parseArpOutput_last_writer [of "output" k] parse_both_patterns
  by blast

theorem parser_total_and_last_writer_wins_witness:
  "regexExec winRegex (js ''arp: command output'') 0 = None \<and>
   regexExec unixRegex (js ''arp: command output'') 0 = None \<and>
   parseArpOutput (js ''arp: command output'') = []"
  using parser_total_and_last_writer_wins [of "js ''arp: command output''"] no_match_in_prose
  by blast

text \<open>
  C5. The subnet membership filter keeps exactly the entries of the neighbor map, in
  their order, whose address satisfies \<open>(ip & mask) == (interfaceAddress & mask)\<close>,
  where the numbers are those \<open>ipToNumber\<close> computes; for addresses in dotted-quad
  notation these are the 32-bit values of the octets. It is a function of its three
  arguments with no failing branch. The entry 10.0.0.5 is kept for the interface
  10.0.0.1 with the mask 255.255.255.0, and the entry 10.0.1.5 is not.
\<close>

theorem subnet_filter_retains_exactly:
  "filterSubnetDevices arpCache addr nm =
     filter (\<lambda>entry. ipToNumber (fst entry) AND ipToNumber nm = ipToNumber addr AND ipToNumber nm)
       arpCache \<and>
   (e1 < 256 \<and> e2 < 256 \<and> e3 < 256 \<and> e4 < 256 \<and> a < 256 \<and> b < 256 \<and> c < 256 \<and> d < 256 \<and>
    m1 < 256 \<and> m2 < 256 \<and> m3 < 256 \<and> m4 < 256 \<longrightarrow>
      ((dotted e1 e2 e3 e4, hw)
          \<in> set (filterSubnetDevices arpCache (dotted a b c d) (dotted m1 m2 m3 m4)) \<longleftrightarrow>
       (dotted e1 e2 e3 e4, hw) \<in> set arpCache \<and>
       quad32 e1 e2 e3 e4 AND quad32 m1 m2 m3 m4 = quad32 a b c d AND quad32 m1 m2 m3 m4)) \<and>
   filterSubnetDevices [(js ''10.0.0.5'', hw1), (js ''10.0.1.5'', hw2)]
     (js ''10.0.0.1'') (js ''255.255.255.0'') = [(js ''10.0.0.5'', hw1)]"
proof (intro conjI impI)
  show "filterSubnetDevices arpCache addr nm =
     filter (\<lambda>entry. ipToNumber (fst entry) AND ipToNumber nm = ipToNumber addr AND ipToNumber nm)
       arpCache"
    by (rule filterSubnetDevices_filter)
next
  assume "e1 < 256 \<and> e2 < 256 \<and> e3 < 256 \<and> e4 < 256 \<and> a < 256 \<and> b < 256 \<and> c < 256 \<and> d < 256 \<and>
    m1 < 256 \<and> m2 < 256 \<and> m3 < 256 \<and> m4 < 256"
  then show "(dotted e1 e2 e3 e4, hw)
          \<in> set (filterSubnetDevices arpCache (dotted a b c d) (dotted m1 m2 m3 m4)) \<longleftrightarrow>
       (dotted e1 e2 e3 e4, hw) \<in> set arpCache \<and>
       quad32 e1 e2 e3 e4 AND quad32 m1 m2 m3 m4 = quad32 a b c d AND quad32 m1 m2 m3 m4"
    by (auto simp: filterSubnetDevices_filter ipToNumber_dotted)
next
  show "filterSubnetDevices [(js ''10.0.0.5'', hw1), (js ''10.0.1.5'', hw2)]
     (js ''10.0.0.1'') (js ''255.255.255.0'') = [(js ''10.0.0.5'', hw1)]"
    by (rule filter_example)
qed

theorem subnet_filter_retains_exactly_witness:
  "(10::nat) < 256 \<and> (0::nat) < 256 \<and> (5::nat) < 256 \<and> (1::nat) < 256 \<and> (255::nat) < 256 \<and>
   (js ''10.0.0.5'', js ''AA:BB:CC:DD:EE:FF'')
     \<in> set (filterSubnetDevices [(js ''10.0.0.5'', js ''AA:BB:CC:DD:EE:FF'')]
              (js ''10.0.0.1'') (js ''255.255.255.0''))"
proof -
  have n: "quad32 10 0 0 5 AND quad32 255 255 255 0 = quad32 10 0 0 1 AND quad32 255 255 255 0"
    by (simp add: network_24)
  have "(dotted 10 0 0 5, js ''AA:BB:CC:DD:EE:FF'')
     \<in> set (filterSubnetDevices [(dotted 10 0 0 5, js ''AA:BB:CC:DD:EE:FF'')]
              (dotted 10 0 0 1) (dotted 255 255 255 0))"
    using subnet_filter_retains_exactly
      [of "[(dotted 10 0 0 5, js ''AA:BB:CC:DD:EE:FF'')]" "dotted 10 0 0 1" "dotted 255 255 255 0"
          10 0 0 5 10 0 0 1 255 255 255 0 "js ''AA:BB:CC:DD:EE:FF''", THEN conjunct2, THEN conjunct1]
      n
    by simp
  then show ?thesis by (simp only: dotted_10 dotted_examples) simp
qed

text \<open>
  C6, as amended. Vendor resolution takes the first 6 characters of the hardware
  address, stripped of its colons and upper-cased, and looks them up in the organization
  table: a hit with a name that is not empty yields the name; a miss, and a hit with
  the empty name, yield \<open>Unknown\<close>; there is no failing branch. With the table that maps
  \<open>AABBCC\<close> to \<open>Acme Corp\<close>, the address \<open>AA:BB:CC:11:22:33\<close> resolves to \<open>Acme Corp\<close> and
  an address with the prefix \<open>FFFFFF\<close> to \<open>Unknown\<close>.
\<close>

theorem vendor_is_table_entry_or_unknown:
  "vendorOf (Some table) hw =
     (case table (take 6 (toUpperCase (filter (\<lambda>c. c \<noteq> 58) hw))) of
        None \<Rightarrow> js ''Unknown''
      | Some org \<Rightarrow> if org = [] then js ''Unknown'' else org) \<and>
   vendorOf (Some [js ''AABBCC'' \<mapsto> js ''Acme Corp'']) (js ''AA:BB:CC:11:22:33'') = js ''Acme Corp'' \<and>
   vendorOf (Some [js ''AABBCC'' \<mapsto> js ''Acme Corp'']) (js ''FF:FF:FF:11:22:33'') = js ''Unknown''"
proof (intro conjI)
  show "vendorOf (Some table) hw =
     (case table (take 6 (toUpperCase (filter (\<lambda>c. c \<noteq> 58) hw))) of
        None \<Rightarrow> js ''Unknown''
      | Some org \<Rightarrow> if org = [] then js ''Unknown'' else org)"
    by (rule vendorOf_lookup)
  have "js ''Acme Corp'' \<noteq> []" by (simp add: js_def)
  then show "vendorOf (Some [js ''AABBCC'' \<mapsto> js ''Acme Corp'']) (js ''AA:BB:CC:11:22:33'') =
      js ''Acme Corp''"
    by (simp only: vendorOf_lookup oui_of_example) simp
  show "vendorOf (Some [js ''AABBCC'' \<mapsto> js ''Acme Corp'']) (js ''FF:FF:FF:11:22:33'') =
      js ''Unknown''"
    using oui_of_example(3) by (simp only: vendorOf_lookup oui_of_example(2)) simp
qed

theorem vendor_hit_with_empty_name_counterexample:
  "[js ''AABBCC'' \<mapsto> []] (take 6 (toUpperCase (filter (\<lambda>c. c \<noteq> 58) (js ''AA:BB:CC:11:22:33'')))) =
     Some [] \<and>
   vendorOf (Some [js ''AABBCC'' \<mapsto> []]) (js ''AA:BB:CC:11:22:33'') = js ''Unknown'' \<and>
   js ''Unknown'' \<noteq> []"
proof (intro conjI)
  show "[js ''AABBCC'' \<mapsto> []] (take 6 (toUpperCase (filter (\<lambda>c. c \<noteq> 58) (js ''AA:BB:CC:11:22:33'')))) =
     Some []"
    by (simp only: oui_of_example) simp
  show "vendorOf (Some [js ''AABBCC'' \<mapsto> []]) (js ''AA:BB:CC:11:22:33'') = js ''Unknown''"
    by (simp only: vendorOf_lookup oui_of_example) simp
  show "js ''Unknown'' \<noteq> []" by (simp add: js_def)
qed

text \<open>
  C7, as amended. When the interfaces can be enumerated, \<open>scan\<close> returns an array and
  does not throw. The array is the concatenation, in the order of enumeration, of what
  each scanned interface contributes: the enriched entries of its own reading of the
  neighbor cache that lie in its subnet, and nothing for an interface that is not
  scanned. A run of \<open>arp\<close> that cannot be launched gives the empty cache, and the empty
  cache contributes no device, while the interfaces after it are still scanned from
  their own runs. So the array is empty when no interface matches the configured
  filter, when \<open>arp\<close> cannot be launched, and when the neighbor cache has no entry. The
  exit code of \<open>arp\<close> is not looked at: what a run printed is parsed whatever the code,
  and changing the exit codes of the runs changes nothing in the result.
\<close>

theorem scan_result_per_interface:
  "(networkInterfaces w = Some ifaces \<longrightarrow>
      fst (scan w st options) =
        Inr (concat (map
          (\<lambda>n. if selected options (ifaces ! n)
               then enrichDevices w
                      (Some (case ouiDatabase st of None \<Rightarrow> loadOuiDatabase w | Some t \<Rightarrow> t))
                      (filterSubnetDevices
                         (getArpCache w (length (filter (selected options) (take n ifaces))))
                         (address (ifaces ! n)) (netmask (ifaces ! n)))
                      (ifname (ifaces ! n))
               else [])
          [0..<length ifaces])) \<and>
      (interfaceFilter options = Some f \<and> f \<noteq> [] \<and> (\<forall>iface \<in> set ifaces. ifname iface \<noteq> f)
         \<longrightarrow> fst (scan w st options) = Inr []) \<and>
      ((\<forall>k. arpRun w k = None) \<longrightarrow> fst (scan w st options) = Inr []) \<and>
      ((\<forall>k out. arpRun w k = Some out \<longrightarrow> parseArpOutput (stdout out) = [])
         \<longrightarrow> fst (scan w st options) = Inr [])) \<and>
   (arpRun w k = None \<longrightarrow> getArpCache w k = []) \<and>
   (arpRun w k = Some out \<longrightarrow> getArpCache w k = parseArpOutput (stdout out)) \<and>
   enrichDevices w db (filterSubnetDevices [] a m) nm = [] \<and>
   fst (scan (w\<lparr> arpRun := (\<lambda>k. map_option (\<lambda>out. out\<lparr> code := c k \<rparr>) (arpRun w k)) \<rparr>)
          st options) =
     fst (scan w st options)"
proof (intro impI conjI)
  show "getArpCache w k = []" if "arpRun w k = None"
    using that by (simp add: getArpCache_def)
  show "getArpCache w k = parseArpOutput (stdout out)" if "arpRun w k = Some out"
    using that by (simp add: getArpCache_def)
  show "enrichDevices w db (filterSubnetDevices [] a m) nm = []"
    by (simp only: filterSubnetDevices_Nil enrichDevices_Nil)
  show "fst (scan (w\<lparr> arpRun := (\<lambda>k. map_option (\<lambda>out. out\<lparr> code := c k \<rparr>) (arpRun w k)) \<rparr>)
          st options) = fst (scan w st options)"
    by (rule scan_code)
next
  assume ifs: "networkInterfaces w = Some ifaces"
  show "fst (scan w st options) =
        Inr (concat (map
          (\<lambda>n. if selected options (ifaces ! n)
               then enrichDevices w
                      (Some (case ouiDatabase st of None \<Rightarrow> loadOuiDatabase w | Some t \<Rightarrow> t))
                      (filterSubnetDevices
                         (getArpCache w (length (filter (selected options) (take n ifaces))))
                         (address (ifaces ! n)) (netmask (ifaces ! n)))
                      (ifname (ifaces ! n))
               else [])
          [0..<length ifaces]))"
    by (simp only: scan_devices ifs option.case passes_by_index passDevices_def)
  {
    assume "interfaceFilter options = Some f \<and> f \<noteq> [] \<and> (\<forall>iface \<in> set ifaces. ifname iface \<noteq> f)"
    then have "\<not> selected options iface" if "iface \<in> set ifaces" for iface
      using that by (auto simp: selected_def)
    then show "fst (scan w st options) = Inr []"
      using ifs by (intro scan_empty) auto
  }
  {
    assume "\<forall>k. arpRun w k = None"
    then have "getArpCache w k = []" for k by (simp add: getArpCache_def)
    then show "fst (scan w st options) = Inr []"
      using ifs by (intro scan_empty) (auto simp: passDevices_no_cache)
  }
  {
    assume "\<forall>k out. arpRun w k = Some out \<longrightarrow> parseArpOutput (stdout out) = []"
    then have "getArpCache w k = []" for k
      by (cases "arpRun w k") (simp_all add: getArpCache_def)
    then show "fst (scan w st options) = Inr []"
      using ifs by (intro scan_empty) (auto simp: passDevices_no_cache)
  }
qed

theorem scan_result_per_interface_witness:
  "networkInterfaces twoLanWorld = Some [lanInterface, lanInterface1] \<and>
   arpRun twoLanWorld 0 = None \<and>
   getArpCache twoLanWorld 0 = [] \<and>
   arpRun twoLanWorld 1 = Some \<lparr> code = 0, stdout = js ''10.0.1.5 aa-bb-cc-dd-ee-ff'' \<rparr> \<and>
   getArpCache twoLanWorld 1 = [(js ''10.0.1.5'', js ''AA:BB:CC:DD:EE:FF'')] \<and>
   fst (scan twoLanWorld \<lparr> ouiDatabase = None \<rparr> \<lparr> interfaceFilter = None, pingTimeout = None \<rparr>) =
     Inr [\<lparr> ip = js ''10.0.1.5'', mac = js ''AA:BB:CC:DD:EE:FF'', interface = js ''eth1'',
            vendor = js ''Unknown'', name = js ''Unknown'' \<rparr>] \<and>
   js ''wlan0'' \<noteq> [] \<and>
   ifname lanInterface \<noteq> js ''wlan0'' \<and>
   ifname lanInterface1 \<noteq> js ''wlan0'' \<and>
   fst (scan twoLanWorld \<lparr> ouiDatabase = None \<rparr>
          \<lparr> interfaceFilter = Some (js ''wlan0''), pingTimeout = None \<rparr>) = Inr [] \<and>
   networkInterfaces noArpWorld = Some [lanInterface] \<and>
   (\<forall>k. arpRun noArpWorld k = None) \<and>
   fst (scan noArpWorld \<lparr> ouiDatabase = None \<rparr> \<lparr> interfaceFilter = None, pingTimeout = None \<rparr>) = Inr [] \<and>
   networkInterfaces (lanWorld 0 []) = Some [lanInterface] \<and>
   (\<forall>k. arpRun (lanWorld 0 []) k = Some \<lparr> code = 0, stdout = [] \<rparr>) \<and>
   parseArpOutput [] = [] \<and>
   fst (scan (lanWorld 0 []) \<lparr> ouiDatabase = None \<rparr> \<lparr> interfaceFilter = None, pingTimeout = None \<rparr>) = Inr []"
proof -
  let ?st = "\<lparr> ouiDatabase = None \<rparr>"
  let ?all = "\<lparr> interfaceFilter = None, pingTimeout = None \<rparr>"
  let ?wlan = "\<lparr> interfaceFilter = Some (js ''wlan0''), pingTimeout = None \<rparr>"
  let ?out = "\<lparr> code = 0, stdout = js ''10.0.1.5 aa-bb-cc-dd-ee-ff'' \<rparr>"
  have i: "networkInterfaces twoLanWorld = Some [lanInterface, lanInterface1]"
    by (rule twoLanWorld_fields)
  have r0: "arpRun twoLanWorld 0 = None"
    by (rule twoLanWorld_fields)
  have r1: "arpRun twoLanWorld 1 = Some ?out"
    by (simp only: One_nat_def twoLanWorld_fields)
  have c0: "getArpCache twoLanWorld 0 = []"
    using scan_result_per_interface [of twoLanWorld "[lanInterface, lanInterface1]" ?st ?all _ 0] r0
    by blast
  have c1: "getArpCache twoLanWorld 1 = parseArpOutput (stdout ?out)"
    using scan_result_per_interface [of twoLanWorld "[lanInterface, lanInterface1]" ?st ?all _ 1 ?out] r1
    by blast
  have e: "enrichDevices twoLanWorld db (filterSubnetDevices [] a m) nm = []" for db a m nm
    using scan_result_per_interface [of twoLanWorld "[lanInterface, lanInterface1]" ?st ?all _ 0 _ db a m nm]
    by blast
  have "fst (scan twoLanWorld ?st ?all) =
        Inr (concat (map
          (\<lambda>n. if selected ?all ([lanInterface, lanInterface1] ! n)
               then enrichDevices twoLanWorld
                      (Some (case ouiDatabase ?st of None \<Rightarrow> loadOuiDatabase twoLanWorld | Some t \<Rightarrow> t))
                      (filterSubnetDevices
                         (getArpCache twoLanWorld
                            (length (filter (selected ?all) (take n [lanInterface, lanInterface1]))))
                         (address ([lanInterface, lanInterface1] ! n))
                         (netmask ([lanInterface, lanInterface1] ! n)))
                      (ifname ([lanInterface, lanInterface1] ! n))
               else [])
          [0..<length [lanInterface, lanInterface1]]))"
    using scan_result_per_interface [of twoLanWorld "[lanInterface, lanInterface1]" ?st ?all] i
    by blast
  also have "\<dots> = Inr [\<lparr> ip = js ''10.0.1.5'', mac = js ''AA:BB:CC:DD:EE:FF'', interface = js ''eth1'',
            vendor = js ''Unknown'', name = js ''Unknown'' \<rparr>]"
    using c1 [unfolded One_nat_def]
    by (simp add: upt_rec [of 0] upt_rec [of "Suc 0"] selected_twoLan c0 e twoLanWorld_fields)
       (simp add: lanInterface1_def enrich_twoLan)
  finally have s: "fst (scan twoLanWorld ?st ?all) =
      Inr [\<lparr> ip = js ''10.0.1.5'', mac = js ''AA:BB:CC:DD:EE:FF'', interface = js ''eth1'',
            vendor = js ''Unknown'', name = js ''Unknown'' \<rparr>]" .
  have n: "\<forall>iface \<in> set [lanInterface, lanInterface1]. ifname iface \<noteq> js ''wlan0''"
    by (simp add: lanInterface_def lanInterface1_def js_def)
  have w0: "js ''wlan0'' \<noteq> []" by (simp add: js_def)
  have p: "interfaceFilter ?wlan = Some (js ''wlan0'') \<and> js ''wlan0'' \<noteq> [] \<and>
      (\<forall>iface \<in> set [lanInterface, lanInterface1]. ifname iface \<noteq> js ''wlan0'')"
    using n w0 by (simp only: ScanOptions.simps simp_thms)
  have f: "fst (scan twoLanWorld ?st ?wlan) = Inr []"
    using scan_result_per_interface [of twoLanWorld "[lanInterface, lanInterface1]" ?st ?wlan "js ''wlan0''"]
      i p
    by blast
  have i2: "networkInterfaces noArpWorld = Some [lanInterface]"
    by (simp add: noArpWorld_def quietWorld_def)
  have a2: "\<forall>k. arpRun noArpWorld k = None"
    by (simp add: noArpWorld_def quietWorld_def)
  have s2: "fst (scan noArpWorld ?st ?all) = Inr []"
    using scan_result_per_interface [of noArpWorld "[lanInterface]" ?st ?all] i2 a2
    by blast
  have i3: "networkInterfaces (lanWorld 0 []) = Some [lanInterface]"
    by (rule lanWorld_fields)
  have a3: "\<forall>k out. arpRun (lanWorld 0 []) k = Some out \<longrightarrow> parseArpOutput (stdout out) = []"
    by (simp add: lanWorld_fields js_def parse_eval)
  have s3: "fst (scan (lanWorld 0 []) ?st ?all) = Inr []"
    using scan_result_per_interface [of "lanWorld 0 []" "[lanInterface]" ?st ?all] i3 a3
    by blast
  have n': "ifname lanInterface \<noteq> js ''wlan0''" "ifname lanInterface1 \<noteq> js ''wlan0''"
    using n by simp_all
  have a3': "\<forall>k. arpRun (lanWorld 0 []) k = Some \<lparr> code = 0, stdout = [] \<rparr>"
    by (simp add: lanWorld_fields js_def)
  have e3: "parseArpOutput [] = []"
    by (simp add: parse_eval)
  from i r0 c0 r1 c1 s n' w0 f i2 a2 s2 i3 a3' e3 s3 show ?thesis
    by (simp only: parse_lan1_line CommandOutput.simps ScanOptions.simps simp_thms)
qed

theorem abnormal_exit_counterexample:
  "arpRun (lanWorld 1 ''10.0.0.5 aa-bb-cc-dd-ee-ff'') 0 =
     Some \<lparr> code = 1, stdout = js ''10.0.0.5 aa-bb-cc-dd-ee-ff'' \<rparr> \<and>
   fst (scan (lanWorld 1 ''10.0.0.5 aa-bb-cc-dd-ee-ff'') \<lparr> ouiDatabase = None \<rparr>
          \<lparr> interfaceFilter = None, pingTimeout = None \<rparr>) =
     Inr [\<lparr> ip = js ''10.0.0.5'', mac = js ''AA:BB:CC:DD:EE:FF'', interface = js ''eth0'',
            vendor = js ''Unknown'', name = js ''Unknown'' \<rparr>]"
proof
  show "arpRun (lanWorld 1 ''10.0.0.5 aa-bb-cc-dd-ee-ff'') 0 =
     Some \<lparr> code = 1, stdout = js ''10.0.0.5 aa-bb-cc-dd-ee-ff'' \<rparr>"
    by (rule lanWorld_fields)
  show "fst (scan (lanWorld 1 ''10.0.0.5 aa-bb-cc-dd-ee-ff'') \<lparr> ouiDatabase = None \<rparr>
          \<lparr> interfaceFilter = None, pingTimeout = None \<rparr>) =
     Inr [\<lparr> ip = js ''10.0.0.5'', mac = js ''AA:BB:CC:DD:EE:FF'', interface = js ''eth0'',
            vendor = js ''Unknown'', name = js ''Unknown'' \<rparr>]"
    by (rule scan_lan_line) (rule selected_lan)
qed

text \<open>
  C10, as amended. When \<open>scan\<close> is called with an \<open>interfaceFilter\<close> string that is not
  empty, every device of the result has that string as its \<open>interface\<close>. In general the
  result is made of one block of devices for each enumerated interface, in the order of
  the enumeration, and every device of a block carries the name of the block's
  interface, which is an IPv4 interface.
\<close>

theorem scanned_devices_carry_interface_name:
  "networkInterfaces w = Some ifaces \<longrightarrow>
     (\<exists>blocks. fst (scan w st options) = Inr (concat blocks) \<and>
        length blocks = length ifaces \<and>
        (\<forall>n < length ifaces. \<forall>d \<in> set (blocks ! n).
           interface d = ifname (ifaces ! n) \<and> family (ifaces ! n) = IPv4) \<and>
        (\<forall>f. interfaceFilter options = Some f \<and> f \<noteq> [] \<longrightarrow>
           (\<forall>d \<in> set (concat blocks). interface d = f)))"
proof
  assume ifs: "networkInterfaces w = Some ifaces"
  define db where "db = Some (case ouiDatabase st of None \<Rightarrow> loadOuiDatabase w | Some t \<Rightarrow> t)"
  define blocks where "blocks = passes w db options ifaces 0"
  have res: "fst (scan w st options) = Inr (concat blocks)"
    by (simp add: scan_devices ifs blocks_def db_def)
  have len: "length blocks = length ifaces"
    by (simp add: blocks_def length_passes)
  have blk: "interface d = ifname (ifaces ! n) \<and> selected options (ifaces ! n)"
    if "n < length ifaces" "d \<in> set (blocks ! n)" for n d
    using passes_block [OF that(1), of d w db options 0] that(2) passDevices_interface
    by (auto simp: blocks_def)
  have named: "\<forall>n < length ifaces. \<forall>d \<in> set (blocks ! n).
      interface d = ifname (ifaces ! n) \<and> family (ifaces ! n) = IPv4"
    using blk selected_IPv4 by blast
  have filtered: "\<forall>f. interfaceFilter options = Some f \<and> f \<noteq> [] \<longrightarrow>
      (\<forall>d \<in> set (concat blocks). interface d = f)"
  proof (intro allI impI ballI)
    fix f d
    assume f: "interfaceFilter options = Some f \<and> f \<noteq> []" and "d \<in> set (concat blocks)"
    then obtain blk where "blk \<in> set blocks" "d \<in> set blk" by auto
    then obtain n where n: "n < length blocks" "d \<in> set (blocks ! n)"
      by (metis in_set_conv_nth)
    with len blk [of n d] have "interface d = ifname (ifaces ! n)" "selected options (ifaces ! n)"
      by simp_all
    with f selected_filter show "interface d = f" by metis
  qed
  from res len named filtered
  show "\<exists>blocks. fst (scan w st options) = Inr (concat blocks) \<and>
        length blocks = length ifaces \<and>
        (\<forall>n < length ifaces. \<forall>d \<in> set (blocks ! n).
           interface d = ifname (ifaces ! n) \<and> family (ifaces ! n) = IPv4) \<and>
        (\<forall>f. interfaceFilter options = Some f \<and> f \<noteq> [] \<longrightarrow>
           (\<forall>d \<in> set (concat blocks). interface d = f))"
    by blast
qed

theorem scanned_devices_carry_interface_name_witness:
  "networkInterfaces (lanWorld 0 ''10.0.0.5 aa-bb-cc-dd-ee-ff'') = Some [lanInterface] \<and>
   js ''eth0'' \<noteq> [] \<and>
   (case fst (scan (lanWorld 0 ''10.0.0.5 aa-bb-cc-dd-ee-ff'') \<lparr> ouiDatabase = None \<rparr>
               \<lparr> interfaceFilter = Some (js ''eth0''), pingTimeout = None \<rparr>) of
      Inl e \<Rightarrow> []
    | Inr devices \<Rightarrow> map interface devices) = [js ''eth0'']"
proof -
  let ?w = "lanWorld 0 ''10.0.0.5 aa-bb-cc-dd-ee-ff''"
  let ?o = "\<lparr> interfaceFilter = Some (js ''eth0''), pingTimeout = None \<rparr>"
  let ?d = "\<lparr> ip = js ''10.0.0.5'', mac = js ''AA:BB:CC:DD:EE:FF'', interface = js ''eth0'',
            vendor = js ''Unknown'', name = js ''Unknown'' \<rparr>"
  have ifs: "networkInterfaces ?w = Some [lanInterface]" by (rule lanWorld_fields)
  have ne: "js ''eth0'' \<noteq> []" by (simp add: js_def)
  have ev: "fst (scan ?w \<lparr> ouiDatabase = None \<rparr> ?o) = Inr [?d]"
    by (rule scan_lan_line) (rule selected_lan)
  from scanned_devices_carry_interface_name [of ?w "[lanInterface]" "\<lparr> ouiDatabase = None \<rparr>" ?o] ifs
  obtain blocks where b: "fst (scan ?w \<lparr> ouiDatabase = None \<rparr> ?o) = Inr (concat blocks)"
    and f: "\<forall>f. interfaceFilter ?o = Some f \<and> f \<noteq> [] \<longrightarrow> (\<forall>d \<in> set (concat blocks). interface d = f)"
    by blast
  from b ev have c: "concat blocks = [?d]" by simp
  from f ne have "\<forall>d \<in> set (concat blocks). interface d = js ''eth0''" by simp
  with c have "map interface (concat blocks) = [js ''eth0'']" by simp
  with ifs ne b show ?thesis by simp
qed

theorem empty_interface_filter_counterexample:
  "fst (scan (lanWorld 0 ''10.0.0.5 aa-bb-cc-dd-ee-ff'') \<lparr> ouiDatabase = None \<rparr>
          \<lparr> interfaceFilter = Some [], pingTimeout = None \<rparr>) =
     Inr [\<lparr> ip = js ''10.0.0.5'', mac = js ''AA:BB:CC:DD:EE:FF'', interface = js ''eth0'',
            vendor = js ''Unknown'', name = js ''Unknown'' \<rparr>] \<and>
   js ''eth0'' \<noteq> []"
proof
  show "fst (scan (lanWorld 0 ''10.0.0.5 aa-bb-cc-dd-ee-ff'') \<lparr> ouiDatabase = None \<rparr>
          \<lparr> interfaceFilter = Some [], pingTimeout = None \<rparr>) =
     Inr [\<lparr> ip = js ''10.0.0.5'', mac = js ''AA:BB:CC:DD:EE:FF'', interface = js ''eth0'',
            vendor = js ''Unknown'', name = js ''Unknown'' \<rparr>]"
    by (rule scan_lan_line) (rule selected_lan)
  show "js ''eth0'' \<noteq> []" by (simp add: js_def)
qed

text \<open>
  C2, as amended. Every device of the result of \<open>scan\<close> comes from a scanned interface
  and from an entry of the neighbor cache read for that interface: it carries the name
  of the interface, its address lies in the subnet of the interface
  (\<open>ip & mask = network & mask\<close> on the numbers of \<open>ipToNumber\<close>), the hardware address
  of the entry is not the string \<open>00:00:00:00:00:00\<close>, and the hardware address of the
  device is \<open>formatMac\<close> of the entry's address without its colons. Whenever the
  entry's address is well-formed, the device has that same address: well-formed,
  colon-separated, uppercase and not all-zero. This holds for every text that \<open>arp\<close>
  prints and for every address and netmask of an interface.
\<close>

theorem scanned_device_in_subnet_with_formatted_address:
  "networkInterfaces w = Some ifaces \<longrightarrow>
     (\<exists>devices. fst (scan w st options) = Inr devices \<and>
        (\<forall>d \<in> set devices. \<exists>n hw.
           n < length ifaces \<and> selected options (ifaces ! n) \<and>
           interface d = ifname (ifaces ! n) \<and>
           ipToNumber (ip d) AND ipToNumber (netmask (ifaces ! n)) =
             ipToNumber (address (ifaces ! n)) AND ipToNumber (netmask (ifaces ! n)) \<and>
           (ip d, hw) \<in> set (getArpCache w (length (filter (selected options) (take n ifaces)))) \<and>
           hw \<noteq> zeroMac \<and>
           mac d = formatMac (cleanMacOf hw) \<and>
           (wellFormedMac hw \<longrightarrow> mac d = hw \<and> wellFormedMac (mac d) \<and> mac d \<noteq> zeroMac)))"
proof
  assume ifs: "networkInterfaces w = Some ifaces"
  define db where "db = Some (case ouiDatabase st of None \<Rightarrow> loadOuiDatabase w | Some t \<Rightarrow> t)"
  define blocks where "blocks = passes w db options ifaces 0"
  have res: "fst (scan w st options) = Inr (concat blocks)"
    by (simp add: scan_devices ifs blocks_def db_def)
  have len: "length blocks = length ifaces"
    by (simp add: blocks_def length_passes)
  have each: "\<exists>n hw.
           n < length ifaces \<and> selected options (ifaces ! n) \<and>
           interface d = ifname (ifaces ! n) \<and>
           ipToNumber (ip d) AND ipToNumber (netmask (ifaces ! n)) =
             ipToNumber (address (ifaces ! n)) AND ipToNumber (netmask (ifaces ! n)) \<and>
           (ip d, hw) \<in> set (getArpCache w (length (filter (selected options) (take n ifaces)))) \<and>
           hw \<noteq> zeroMac \<and>
           mac d = formatMac (cleanMacOf hw) \<and>
           (wellFormedMac hw \<longrightarrow> mac d = hw \<and> wellFormedMac (mac d) \<and> mac d \<noteq> zeroMac)"
    if "d \<in> set (concat blocks)" for d
  proof -
    from that obtain blk where "blk \<in> set blocks" "d \<in> set blk" by auto
    then obtain n where n: "n < length blocks" "d \<in> set (blocks ! n)"
      by (metis in_set_conv_nth)
    from n(1) len have n': "n < length ifaces" by simp
    define k where "k = length (filter (selected options) (take n ifaces))"
    from n(2) passes_nth [OF n', of w db options 0]
    have sel: "selected options (ifaces ! n)" and d: "d \<in> set (passDevices w db k (ifaces ! n))"
      by (auto simp: blocks_def k_def split: if_splits)
    from passDevices_entry [OF d] obtain hw where
      hw: "(ip d, hw) \<in> set (getArpCache w k)"
      and sub: "ipToNumber (ip d) AND ipToNumber (netmask (ifaces ! n)) =
        ipToNumber (address (ifaces ! n)) AND ipToNumber (netmask (ifaces ! n))"
      and nm: "interface d = ifname (ifaces ! n)"
      and fm: "mac d = formatMac (cleanMacOf hw)"
      by blast
    from hw have nz: "hw \<noteq> zeroMac" by (rule getArpCache_no_zero)
    have wf: "mac d = hw \<and> wellFormedMac (mac d) \<and> mac d \<noteq> zeroMac" if "wellFormedMac hw"
      using that nz fm formatMac_wellFormed [OF that] by simp
    from n' sel nm sub hw nz fm wf show ?thesis
      unfolding k_def by blast
  qed
  with res show "\<exists>devices. fst (scan w st options) = Inr devices \<and>
        (\<forall>d \<in> set devices. \<exists>n hw.
           n < length ifaces \<and> selected options (ifaces ! n) \<and>
           interface d = ifname (ifaces ! n) \<and>
           ipToNumber (ip d) AND ipToNumber (netmask (ifaces ! n)) =
             ipToNumber (address (ifaces ! n)) AND ipToNumber (netmask (ifaces ! n)) \<and>
           (ip d, hw) \<in> set (getArpCache w (length (filter (selected options) (take n ifaces)))) \<and>
           hw \<noteq> zeroMac \<and>
           mac d = formatMac (cleanMacOf hw) \<and>
           (wellFormedMac hw \<longrightarrow> mac d = hw \<and> wellFormedMac (mac d) \<and> mac d \<noteq> zeroMac))"
    by blast
qed

theorem scanned_device_in_subnet_with_formatted_address_witness:
  "networkInterfaces (lanWorld 0 ''10.0.0.5 aa-bb-cc-dd-ee-ff'') = Some [lanInterface] \<and>
   fst (scan (lanWorld 0 ''10.0.0.5 aa-bb-cc-dd-ee-ff'') \<lparr> ouiDatabase = None \<rparr>
          \<lparr> interfaceFilter = None, pingTimeout = None \<rparr>) =
     Inr [\<lparr> ip = js ''10.0.0.5'', mac = js ''AA:BB:CC:DD:EE:FF'', interface = js ''eth0'',
            vendor = js ''Unknown'', name = js ''Unknown'' \<rparr>] \<and>
   getArpCache (lanWorld 0 ''10.0.0.5 aa-bb-cc-dd-ee-ff'') 0 =
     [(js ''10.0.0.5'', js ''AA:BB:CC:DD:EE:FF'')] \<and>
   wellFormedMac (js ''AA:BB:CC:DD:EE:FF'') \<and>
   wellFormedMac (mac \<lparr> ip = js ''10.0.0.5'', mac = js ''AA:BB:CC:DD:EE:FF'', interface = js ''eth0'',
            vendor = js ''Unknown'', name = js ''Unknown'' \<rparr>) \<and>
   mac \<lparr> ip = js ''10.0.0.5'', mac = js ''AA:BB:CC:DD:EE:FF'', interface = js ''eth0'',
            vendor = js ''Unknown'', name = js ''Unknown'' \<rparr> \<noteq> zeroMac \<and>
   ipToNumber (js ''10.0.0.5'') AND ipToNumber (netmask lanInterface) =
     ipToNumber (address lanInterface) AND ipToNumber (netmask lanInterface)"
proof -
  let ?w = "lanWorld 0 ''10.0.0.5 aa-bb-cc-dd-ee-ff''"
  let ?st = "\<lparr> ouiDatabase = None \<rparr>"
  let ?o = "\<lparr> interfaceFilter = None, pingTimeout = None \<rparr>"
  let ?d = "\<lparr> ip = js ''10.0.0.5'', mac = js ''AA:BB:CC:DD:EE:FF'', interface = js ''eth0'',
            vendor = js ''Unknown'', name = js ''Unknown'' \<rparr>"
  have ifs: "networkInterfaces ?w = Some [lanInterface]" by (rule lanWorld_fields)
  have ev: "fst (scan ?w ?st ?o) = Inr [?d]"
    by (rule scan_lan_line) (rule selected_lan)
  have cache: "getArpCache ?w k = [(js ''10.0.0.5'', js ''AA:BB:CC:DD:EE:FF'')]" for k
    by (simp only: lanWorld_fields parse_lan_line)
  from scanned_device_in_subnet_with_formatted_address [of ?w "[lanInterface]" ?st ?o] ifs
  obtain devices where dv: "fst (scan ?w ?st ?o) = Inr devices"
    and all: "\<forall>d \<in> set devices. \<exists>n hw.
           n < length [lanInterface] \<and> selected ?o ([lanInterface] ! n) \<and>
           interface d = ifname ([lanInterface] ! n) \<and>
           ipToNumber (ip d) AND ipToNumber (netmask ([lanInterface] ! n)) =
             ipToNumber (address ([lanInterface] ! n)) AND ipToNumber (netmask ([lanInterface] ! n)) \<and>
           (ip d, hw) \<in> set (getArpCache ?w (length (filter (selected ?o) (take n [lanInterface])))) \<and>
           hw \<noteq> zeroMac \<and>
           mac d = formatMac (cleanMacOf hw) \<and>
           (wellFormedMac hw \<longrightarrow> mac d = hw \<and> wellFormedMac (mac d) \<and> mac d \<noteq> zeroMac)"
    by blast
  from dv ev have "devices = [?d]" by simp
  with all obtain n hw where n: "n < length [lanInterface]"
    and sub: "ipToNumber (ip ?d) AND ipToNumber (netmask ([lanInterface] ! n)) =
             ipToNumber (address ([lanInterface] ! n)) AND ipToNumber (netmask ([lanInterface] ! n))"
    and hw: "(ip ?d, hw) \<in> set (getArpCache ?w (length (filter (selected ?o) (take n [lanInterface]))))"
    and wf: "wellFormedMac hw \<longrightarrow> mac ?d = hw \<and> wellFormedMac (mac ?d) \<and> mac ?d \<noteq> zeroMac"
    by auto
  from n have n0: "n = 0" by simp
  from hw have "hw = js ''AA:BB:CC:DD:EE:FF''" by (simp add: cache)
  with wf wellFormed_example have 1: "wellFormedMac (mac ?d)" "mac ?d \<noteq> zeroMac" by simp_all
  from sub n0 have 2: "ipToNumber (js ''10.0.0.5'') AND ipToNumber (netmask lanInterface) =
     ipToNumber (address lanInterface) AND ipToNumber (netmask lanInterface)" by simp
  from ifs ev cache [of 0] wellFormed_example 1 2 show ?thesis by (intro conjI)
qed

theorem malformed_address_counterexample:
  "fst (scan (lanWorld 0 ''10.0.0.5 000:00:00:00:00:0'') \<lparr> ouiDatabase = None \<rparr>
          \<lparr> interfaceFilter = None, pingTimeout = None \<rparr>) =
     Inr [\<lparr> ip = js ''10.0.0.5'', mac = js ''00:00:00:00:00:00'', interface = js ''eth0'',
            vendor = js ''Unknown'', name = js ''Unknown'' \<rparr>] \<and>
   fst (scan (lanWorld 0 ''10.0.0.5 0:0:0:0:0:0:0:0:0'') \<lparr> ouiDatabase = None \<rparr>
          \<lparr> interfaceFilter = None, pingTimeout = None \<rparr>) =
     Inr [\<lparr> ip = js ''10.0.0.5'', mac = js ''00:00:00:00:0'', interface = js ''eth0'',
            vendor = js ''Unknown'', name = js ''Unknown'' \<rparr>] \<and>
   \<not> wellFormedMac (js ''00:00:00:00:0'')"
  by (simp only: scan_lanWorld [OF selected_lan(1)] pass_odd_zero_line pass_short_groups_line
        malformed_example simp_thms)

end
